theory Spec2Isabelle
  imports Complex_Main "HOL-Library.Monad_Syntax"
begin

section \<open>Numbers, vectors and the library calls the simulation relies on\<close>

text \<open>
  The simulation computes with Python floats and \<^verbatim>\<open>pygame.math.Vector2\<close>. The model
  takes floats as real numbers (exact arithmetic, no rounding) and a vector as a pair of
  reals. The vector operations below are the ones of \<^verbatim>\<open>pygame.math.Vector2\<close> that the
  sources call; an operation that raises \<^verbatim>\<open>ValueError\<close> in pygame returns \<open>None\<close>.
\<close>

type_synonym vec2 = "real \<times> real"

definition vadd :: "vec2 \<Rightarrow> vec2 \<Rightarrow> vec2" where
  "vadd a b = (fst a + fst b, snd a + snd b)"

definition vsub :: "vec2 \<Rightarrow> vec2 \<Rightarrow> vec2" where
  "vsub a b = (fst a - fst b, snd a - snd b)"

definition vneg :: "vec2 \<Rightarrow> vec2" where
  "vneg a = (- fst a, - snd a)"

definition smul :: "vec2 \<Rightarrow> real \<Rightarrow> vec2" where
  "smul a k = (fst a * k, snd a * k)"

definition vdot :: "vec2 \<Rightarrow> vec2 \<Rightarrow> real" where
  "vdot a b = fst a * fst b + snd a * snd b"

definition length_squared :: "vec2 \<Rightarrow> real" where
  "length_squared a = fst a * fst a + snd a * snd a"

definition vlength :: "vec2 \<Rightarrow> real" where
  "vlength a = sqrt (length_squared a)"

text \<open>\<^verbatim>\<open>Vector2.normalize()\<close>: raises \<^verbatim>\<open>ValueError\<close> on a vector of length zero.\<close>

definition normalize :: "vec2 \<Rightarrow> vec2 option" where
  "normalize a = (let l = vlength a in if l = 0 then None else Some (fst a / l, snd a / l))"

text \<open>
  \<^verbatim>\<open>Vector2.reflect(normal)\<close>: pygame raises \<^verbatim>\<open>ValueError\<close> when the squared length of the
  normal is below its vector epsilon \<open>1e-6\<close>, scales the normal to length one unless its
  squared length is already one, and returns \<open>v - 2 (v \<cdot> n) n\<close>.
\<close>

definition reflect :: "vec2 \<Rightarrow> vec2 \<Rightarrow> vec2 option" where
  "reflect v n =
     (let nn = length_squared n in
      if nn < 1 / 1000000 then None
      else (let u = (if nn \<noteq> 1 then (fst n / sqrt nn, snd n / sqrt nn) else n);
                dp = vdot v u
            in Some (fst v - 2 * fst u * dp, snd v - 2 * snd u * dp)))"

text \<open>\<^verbatim>\<open>Vector2.from_polar((r, phi))\<close> with \<open>phi\<close> in degrees.\<close>

definition radians :: "real \<Rightarrow> real" where
  "radians deg = deg * pi / 180"

definition degrees :: "real \<Rightarrow> real" where
  "degrees rad = rad * 180 / pi"

definition from_polar :: "real \<Rightarrow> real \<Rightarrow> vec2" where
  "from_polar r phi = (r * cos (radians phi), r * sin (radians phi))"

text \<open>\<^verbatim>\<open>math.atan2(y, x)\<close>, the angle of the point \<open>(x, y)\<close> in \<open>(-pi, pi]\<close>.\<close>

definition atan2 :: "real \<Rightarrow> real \<Rightarrow> real" where
  "atan2 y x =
     (if 0 < x then arctan (y / x)
      else if x < 0 then (if 0 \<le> y then arctan (y / x) + pi else arctan (y / x) - pi)
      else if 0 < y then pi / 2
      else if y < 0 then - pi / 2
      else 0)"

text \<open>
  \<^verbatim>\<open>a.angle_to(b)\<close>: the angle in degrees from \<open>a\<close> to \<open>b\<close>, computed by pygame as
  \<open>atan2 b - atan2 a\<close>.
\<close>

definition angle_to :: "vec2 \<Rightarrow> vec2 \<Rightarrow> real" where
  "angle_to a b = degrees (atan2 (snd b) (fst b) - atan2 (snd a) (fst a))"

text \<open>\<^verbatim>\<open>Vector2.rotate(-90)\<close>: pygame treats multiples of 90 degrees exactly.\<close>

definition rotate_neg90 :: "vec2 \<Rightarrow> vec2" where
  "rotate_neg90 a = (snd a, - fst a)"

subsection \<open>The clock and the random number generator\<close>

text \<open>
  \<^verbatim>\<open>pygame.time.get_ticks()\<close> and the module \<^verbatim>\<open>random\<close> are the program's only sources
  of nondeterminism. The world holds the successive readings of the clock (milliseconds)
  and the successive draws of \<^verbatim>\<open>random.random()\<close>, each with the number of values
  consumed so far.
\<close>

record world =
  clock :: "nat \<Rightarrow> int"
  clock_reads :: nat
  draws :: "nat \<Rightarrow> real"
  draws_taken :: nat

definition get_ticks :: "world \<Rightarrow> int \<times> world" where
  "get_ticks w = (clock w (clock_reads w), w\<lparr>clock_reads := clock_reads w + 1\<rparr>)"

definition random_draw :: "world \<Rightarrow> real \<times> world" where
  "random_draw w = (draws w (draws_taken w), w\<lparr>draws_taken := draws_taken w + 1\<rparr>)"

text \<open>\<^verbatim>\<open>random.uniform(a, b)\<close> is \<open>a + (b - a) * random()\<close>.\<close>

definition uniform :: "real \<Rightarrow> real \<Rightarrow> world \<Rightarrow> real \<times> world" where
  "uniform a b w = (let (u, w') = random_draw w in (a + (b - a) * u, w'))"

text \<open>\<^verbatim>\<open>random.randint(a, b)\<close>: an integer of \<open>[a, b]\<close>, here read off one draw.\<close>

definition randint :: "int \<Rightarrow> int \<Rightarrow> world \<Rightarrow> int \<times> world" where
  "randint a b w = (let (u, w') = random_draw w in (a + \<lfloor>u * real_of_int (b - a + 1)\<rfloor>, w'))"

section \<open>config.py\<close>

definition WIDTH :: int where "WIDTH = 1080"
definition HEIGHT :: int where "HEIGHT = 1080"
definition CENTER_X :: int where "CENTER_X = WIDTH div 2"
definition CENTER_Y :: int where "CENTER_Y = HEIGHT div 2"
definition BOUNDARY_FACTOR :: real where "BOUNDARY_FACTOR = 9 / 10"
definition BOUNDARY_THICKNESS :: real where "BOUNDARY_THICKNESS = 5"
definition DOT_RADIUS :: real where "DOT_RADIUS = 5"
definition INITIAL_DOT_SPEED :: real where "INITIAL_DOT_SPEED = 200"
definition REGULAR_SPAWN_INTERVAL :: real where "REGULAR_SPAWN_INTERVAL = 10"
definition SPLIT_DELAY :: int where "SPLIT_DELAY = 50"
definition SPLIT_ANGLE_RANGE :: real where "SPLIT_ANGLE_RANGE = 90"
definition INITIAL_DOT_LIMIT :: int where "INITIAL_DOT_LIMIT = 10000"

definition AVAILABLE_SHAPES :: "string list" where
  "AVAILABLE_SHAPES = [''Circle'', ''Square'', ''Triangle'', ''Parallelogram'', ''Ameba'']"

text \<open>\<^verbatim>\<open>COLLISION_BOUNDS_INWARD_OFFSET.get(name, 0.0)\<close>\<close>

definition COLLISION_BOUNDS_INWARD_OFFSET :: "string \<Rightarrow> real" where
  "COLLISION_BOUNDS_INWARD_OFFSET name =
     (if name = ''Circle'' then 0
      else if name = ''Square'' then - 10
      else if name = ''Triangle'' then - 10
      else if name = ''Parallelogram'' then - 10
      else if name = ''Ameba'' then 0
      else 0)"

section \<open>dot.py\<close>

type_synonym rgb = "int \<times> int \<times> int"

definition random_color :: "world \<Rightarrow> rgb \<times> world" where
  "random_color w =
     (let (r, w1) = randint 50 255 w; (g, w2) = randint 50 255 w1; (b, w3) = randint 50 255 w2
      in ((r, g, b), w3))"

record dot =
  pos :: vec2
  vel :: vec2
  color :: rgb
  needs_split :: bool
  split_timer_start :: int
  last_collision_normal :: "vec2 option"

text \<open>\<^verbatim>\<open>Dot.__init__\<close>\<close>

definition Dot :: "real \<Rightarrow> real \<Rightarrow> real \<Rightarrow> real \<Rightarrow> rgb \<Rightarrow> dot" where
  "Dot x y vx vy c =
     \<lparr>pos = (x, y), vel = (vx, vy), color = c, needs_split = False,
      split_timer_start = 0, last_collision_normal = None\<rparr>"

definition move :: "real \<Rightarrow> dot \<Rightarrow> dot" where
  "move dt d = d\<lparr>pos := vadd (pos d) (smul (vel d) dt)\<rparr>"

text \<open>
  \<^verbatim>\<open>Dot.mark_for_split\<close>: a dot that is already marked is left as it is; otherwise the
  clock is read and the normal stored, scaled to length one, or \<open>(0, -1)\<close> for a normal of
  squared length at most \<open>1e-9\<close>.
\<close>

definition mark_for_split :: "vec2 \<Rightarrow> dot \<Rightarrow> world \<Rightarrow> (dot \<times> world) option" where
  "mark_for_split inward_collision_normal d w =
     (if \<not> needs_split d then
        (let (t, w') = get_ticks w;
             d' = d\<lparr>needs_split := True, split_timer_start := t\<rparr>
         in if length_squared inward_collision_normal > 1 / 1000000000
            then do { n \<leftarrow> normalize inward_collision_normal;
                      Some (d'\<lparr>last_collision_normal := Some n\<rparr>, w') }
            else Some (d'\<lparr>last_collision_normal := Some (0, - 1)\<rparr>, w'))
      else Some (d, w))"

text \<open>\<^verbatim>\<open>Dot.should_split\<close>: the clock is read only for a marked dot.\<close>

definition should_split :: "dot \<Rightarrow> world \<Rightarrow> bool \<times> world" where
  "should_split d w =
     (if needs_split d then
        (let (t, w') = get_ticks w; elapsed_time = t - split_timer_start d
         in (elapsed_time \<ge> SPLIT_DELAY, w'))
      else (False, w))"

text \<open>
  One pass of the loop of \<^verbatim>\<open>Dot.split\<close>: a child at the angle \<open>stored_normal_angle\<close> plus
  a uniform offset. The branch for \<open>current_speed \<le> 0\<close> adds the result of an in-place
  \<^verbatim>\<open>from_polar\<close> (which is \<^verbatim>\<open>None\<close> in pygame) to a vector and so raises; it is never
  taken, since \<open>INITIAL_DOT_SPEED\<close> is 200.
\<close>

definition split_child :: "vec2 \<Rightarrow> real \<Rightarrow> world \<Rightarrow> (dot \<times> world) option" where
  "split_child parent_pos stored_normal_angle w =
     (let (random_offset, w1) = uniform (- SPLIT_ANGLE_RANGE / 2) (SPLIT_ANGLE_RANGE / 2) w;
          split_angle_deg = stored_normal_angle + random_offset;
          current_speed = INITIAL_DOT_SPEED;
          new_vel = from_polar current_speed split_angle_deg
      in do {
        offset_vec \<leftarrow> (if current_speed > 0
                       then map_option (\<lambda>u. smul u (DOT_RADIUS * (11 / 10))) (normalize new_vel)
                       else None);
        let new_pos = vadd parent_pos offset_vec;
        let (c, w2) = random_color w1;
        Some (Dot (fst new_pos) (snd new_pos) (fst new_vel) (snd new_vel) c, w2)
      })"

text \<open>
  Lines 80 to 88 of \<^verbatim>\<open>Dot.split\<close>: the angle of the stored normal in degrees.
  \<^verbatim>\<open>angle_to\<close> does not raise on vectors, so the handler of \<^verbatim>\<open>ValueError\<close> has no
  branch here.
\<close>

definition stored_normal_angle :: "vec2 \<Rightarrow> real" where
  "stored_normal_angle normal =
     (let angle_from_angle_to = angle_to normal (1, 0);
          angle_to_use_deg = - angle_from_angle_to
      in angle_to_use_deg)"

text \<open>
  Lines 69 to 77 of \<^verbatim>\<open>Dot.split\<close>: the normal the split uses, which is the stored one,
  or the direction to the centre (or \<open>(0, -1)\<close> at the centre) when none is stored.
\<close>

definition normal_for_split :: "dot \<Rightarrow> vec2 \<Rightarrow> vec2 option" where
  "normal_for_split d parent_pos =
     (case last_collision_normal d of
        None \<Rightarrow>
          (let center_fallback = (real_of_int CENTER_X, real_of_int CENTER_Y);
               vec_to_center = vsub center_fallback parent_pos
           in if length_squared vec_to_center > 1 / 1000000000
              then normalize vec_to_center
              else Some (0, - 1))
      | Some n \<Rightarrow> Some n)"

text \<open>
  \<^verbatim>\<open>Dot.split\<close>: returns the parent as the call leaves it (flag reset, normal cleared),
  the list \<open>new_dots\<close> and the world.
\<close>

definition split :: "dot \<Rightarrow> world \<Rightarrow> (dot \<times> dot list \<times> world) option" where
  "split d w =
     (let d0 = d\<lparr>needs_split := False\<rparr>;
          parent_pos = pos d0
      in do {
        normal \<leftarrow> normal_for_split d0 parent_pos;
        let angle = stored_normal_angle normal;
        let d1 = d0\<lparr>last_collision_normal := None\<rparr>;
        (c1, w1) \<leftarrow> split_child parent_pos angle w;
        (c2, w2) \<leftarrow> split_child parent_pos angle w1;
        Some (d1, [c1, c2], w2)
      })"

section \<open>simulation.py\<close>

definition epsilon :: real where
  "epsilon = 1 / 1000000"

definition find_closest_point_on_segment :: "vec2 \<Rightarrow> vec2 \<Rightarrow> vec2 \<Rightarrow> vec2" where
  "find_closest_point_on_segment point_vec seg_start_vec seg_end_vec =
     (let segment_vec = vsub seg_end_vec seg_start_vec;
          seg_len_sq = length_squared segment_vec
      in if seg_len_sq < 1 / 1000000000 then seg_start_vec
         else (let start_to_point_vec = vsub point_vec seg_start_vec;
                   t = vdot start_to_point_vec segment_vec / seg_len_sq;
                   t = max 0 (min 1 t);
                   closest_point = vadd seg_start_vec (smul segment_vec t)
               in closest_point))"

subsection \<open>Shapes\<close>

text \<open>
  An entry of \<^verbatim>\<open>data['segments']\<close> is the tuple
  \<open>(v_start, v_end, segment_vector, segment_len_sq, normal_outward)\<close>; a shape is a
  dictionary of type \<^verbatim>\<open>'circle'\<close> with a radius, or of type \<^verbatim>\<open>'polygon'\<close> with vertices
  and segments.
\<close>

type_synonym segment = "vec2 \<times> vec2 \<times> vec2 \<times> real \<times> vec2"

datatype shape = Circle real | Polygon "vec2 list" "segment list"

definition center_pos :: vec2 where
  "center_pos = (real_of_int CENTER_X, real_of_int CENTER_Y)"

text \<open>\<^verbatim>\<open>int(min(WIDTH, HEIGHT) * BOUNDARY_FACTOR / 2)\<close>; the argument is positive.\<close>

definition max_extent_radius :: int where
  "max_extent_radius = \<lfloor>real_of_int (min WIDTH HEIGHT) * BOUNDARY_FACTOR / 2\<rfloor>"

text \<open>
  The last loop of \<^verbatim>\<open>define_shapes\<close>, for one polygon: the segments appended at index
  \<open>i\<close> (none for a degenerate edge), and the whole list.
\<close>

definition segment_at :: "vec2 list \<Rightarrow> nat \<Rightarrow> segment list option" where
  "segment_at verts i =
     (let num_verts = length verts;
          v_start = verts ! i;
          v_end = verts ! ((i + 1) mod num_verts);
          segment_vector = vsub v_end v_start;
          segment_len_sq = length_squared segment_vector
      in if segment_len_sq < 1 / 1000000000 then Some []
         else do {
           normal_outward \<leftarrow> normalize (rotate_neg90 segment_vector);
           Some [(v_start, v_end, segment_vector, segment_len_sq, normal_outward)]
         })"

definition polygon_segments :: "vec2 list \<Rightarrow> segment list option" where
  "polygon_segments verts =
     map_option concat (those (map (segment_at verts) [0..<length verts]))"

definition polygon_shape :: "vec2 list \<Rightarrow> shape option" where
  "polygon_shape verts = map_option (Polygon verts) (polygon_segments verts)"

subsection \<open>The irregular polygon of \<^verbatim>\<open>define_shapes\<close>\<close>

text \<open>
  \<^verbatim>\<open>simplex.noise2\<close> is a function of the \<^verbatim>\<open>opensimplex\<close> package, seeded at random: the
  model takes it as the parameter \<open>noise2\<close>.
\<close>

definition num_vertices_ameba :: nat where "num_vertices_ameba = 360"
definition noise_frequency :: real where "noise_frequency = 3"
definition noise_amplitude_factor :: real where "noise_amplitude_factor = 4 / 10"
definition base_r_factor :: real where "base_r_factor = 55 / 100"

definition base_r :: real where
  "base_r = base_r_factor * real_of_int max_extent_radius"

definition amplitude :: real where
  "amplitude = noise_amplitude_factor * base_r"

definition ameba_noise_val :: "(real \<Rightarrow> real \<Rightarrow> real) \<Rightarrow> nat \<Rightarrow> real" where
  "ameba_noise_val noise2 i =
     (let theta = (real i / real num_vertices_ameba) * 2 * pi;
          noise_x = cos theta * noise_frequency;
          noise_y = sin theta * noise_frequency
      in noise2 noise_x noise_y)"

text \<open>The first loop: the list \<open>generated_radii_factors\<close>.\<close>

definition generated_radii_factors :: "(real \<Rightarrow> real \<Rightarrow> real) \<Rightarrow> real list" where
  "generated_radii_factors noise2 =
     map (\<lambda>i. let noise_val = ameba_noise_val noise2 i;
                  current_radius = base_r + amplitude * noise_val;
                  current_radius = max (base_r * (1 / 10)) current_radius
              in current_radius / real_of_int max_extent_radius)
         [0..<num_vertices_ameba]"

definition scale_factor :: "(real \<Rightarrow> real \<Rightarrow> real) \<Rightarrow> real" where
  "scale_factor noise2 =
     (let factors = generated_radii_factors noise2;
          max_gen_r_factor = (if factors \<noteq> [] then Max (set factors) else base_r_factor);
          max_gen_r_factor = (if max_gen_r_factor \<le> 1 / 1000000 then base_r_factor
                              else max_gen_r_factor)
      in 1 / max_gen_r_factor)"

text \<open>The second loop: the radius \<open>r\<close> and the vertex of index \<open>i\<close>.\<close>

definition ameba_radius :: "(real \<Rightarrow> real \<Rightarrow> real) \<Rightarrow> nat \<Rightarrow> real" where
  "ameba_radius noise2 i =
     (let noise_val = ameba_noise_val noise2 i;
          current_radius_unscaled = base_r + amplitude * noise_val;
          current_radius_unscaled = max (base_r * (2 / 10)) current_radius_unscaled;
          r = current_radius_unscaled * scale_factor noise2;
          r = min r (real_of_int max_extent_radius)
      in r)"

definition ameba_vertices :: "(real \<Rightarrow> real \<Rightarrow> real) \<Rightarrow> vec2 list" where
  "ameba_vertices noise2 =
     map (\<lambda>i. let theta = (real i / real num_vertices_ameba) * 2 * pi;
                  r = ameba_radius noise2 i
              in (real_of_int CENTER_X + r * cos theta, real_of_int CENTER_Y + r * sin theta))
         [0..<num_vertices_ameba]"

subsection \<open>The simulation state\<close>

record simulation =
  dots :: "dot list"
  paused :: bool
  running :: bool
  dot_limit :: int
  last_spawn_time :: int
  limit_reached_paused :: bool
  first_unpause :: bool
  current_shape_name :: string
  current_shape_data :: shape
  shape_definitions :: "string \<rightharpoonup> shape"

definition reset :: "simulation \<Rightarrow> world \<Rightarrow> simulation \<times> world" where
  "reset s w =
     (let (t, w') = get_ticks w
      in (s\<lparr>dots := [], paused := True, running := True, dot_limit := INITIAL_DOT_LIMIT,
            last_spawn_time := t, limit_reached_paused := False, first_unpause := True\<rparr>, w'))"

definition spawn_dot :: "simulation \<Rightarrow> world \<Rightarrow> simulation \<times> world" where
  "spawn_dot s w =
     (let (angle, w1) = uniform 0 (2 * pi) w;
          vel = from_polar INITIAL_DOT_SPEED (degrees angle);
          (c, w2) = random_color w1
      in (s\<lparr>dots := dots s @
                [Dot (real_of_int CENTER_X) (real_of_int CENTER_Y) (fst vel) (snd vel) c]\<rparr>, w2))"

subsection \<open>Input\<close>

datatype key = K_ESCAPE | K_SPACE | K_r | K_other

text \<open>
  The events \<^verbatim>\<open>handle_input\<close> looks at. A drop-down event carries whether its element
  is the shape drop-down, and its text.
\<close>

datatype event = QUIT | KEYDOWN key | UI_DROP_DOWN_MENU_CHANGED bool string | OTHER_EVENT

definition handle_space :: "simulation \<Rightarrow> world \<Rightarrow> simulation \<times> world" where
  "handle_space s w =
     (if paused s then
        (let (s1, w1) =
               (if first_unpause s then
                  (let (s', w') = (if dot_limit s > 0 \<and> length (dots s) = 0
                                   then spawn_dot s w else (s, w));
                       (t, w'') = get_ticks w'
                   in (s'\<lparr>last_spawn_time := t, first_unpause := False\<rparr>, w''))
                else (s, w));
             s2 = (if limit_reached_paused s1
                   then s1\<lparr>dot_limit := dot_limit s1 + INITIAL_DOT_LIMIT,
                           limit_reached_paused := False\<rparr>
                   else s1)
         in (s2\<lparr>paused := False\<rparr>, w1))
      else (s\<lparr>paused := True\<rparr>, w))"

definition handle_event :: "event \<Rightarrow> simulation \<times> world \<Rightarrow> simulation \<times> world" where
  "handle_event e sw =
     (let (s, w) = sw in
      case e of
        QUIT \<Rightarrow> (s\<lparr>running := False\<rparr>, w)
      | KEYDOWN k \<Rightarrow>
          (case k of
             K_ESCAPE \<Rightarrow> (s\<lparr>running := False\<rparr>, w)
           | K_SPACE \<Rightarrow> handle_space s w
           | K_r \<Rightarrow> reset s w
           | K_other \<Rightarrow> (s, w))
      | UI_DROP_DOWN_MENU_CHANGED is_shape_dropdown new_shape_name \<Rightarrow>
          (if is_shape_dropdown then
             (if new_shape_name \<noteq> current_shape_name s then
                (let s1 = s\<lparr>current_shape_name := new_shape_name\<rparr>
                 in case shape_definitions s1 new_shape_name of
                      Some data \<Rightarrow> reset (s1\<lparr>current_shape_data := data\<rparr>) w
                    | None \<Rightarrow> (s1\<lparr>current_shape_name := hd AVAILABLE_SHAPES\<rparr>, w))
              else (s, w))
           else (s, w))
      | OTHER_EVENT \<Rightarrow> (s, w))"

definition handle_input :: "event list \<Rightarrow> simulation \<Rightarrow> world \<Rightarrow> simulation \<times> world" where
  "handle_input events s w = fold handle_event events (s, w)"

subsection \<open>Collisions\<close>

text \<open>
  The statement \<^verbatim>\<open>if dot.vel.length_squared() > epsilon: dot.vel = dot.vel.reflect(n)\<close>,
  which \<^verbatim>\<open>handle_collisions\<close> runs in each of its three collision branches.
\<close>

definition reflect_velocity :: "vec2 \<Rightarrow> dot \<Rightarrow> dot option" where
  "reflect_velocity n d =
     (if length_squared (vel d) > epsilon
      then map_option (\<lambda>v. d\<lparr>vel := v\<rparr>) (reflect (vel d) n)
      else Some d)"

text \<open>The branch for a shape of type \<^verbatim>\<open>'circle'\<close>.\<close>

definition circle_collision ::
  "real \<Rightarrow> real \<Rightarrow> dot \<Rightarrow> real \<Rightarrow> world \<Rightarrow> (dot \<times> bool \<times> world) option" where
  "circle_collision radius manual_offset d dt w =
     (let inner_boundary_edge_radius = radius - BOUNDARY_THICKNESS / 2;
          collision_distance = max 0 (inner_boundary_edge_radius - manual_offset - DOT_RADIUS);
          next_pos = vadd (pos d) (smul (vel d) dt);
          vec_to_center = vsub center_pos next_pos;
          dist_sq = length_squared vec_to_center
      in if dist_sq \<ge> collision_distance * collision_distance - epsilon then
           (let dist = (if dist_sq > 0 then sqrt dist_sq else 0) in
            do {
              normal_to_center \<leftarrow> (if dist > epsilon then normalize vec_to_center
                                    else Some (0, 1));
              let d1 = d\<lparr>pos := vsub center_pos
                                   (smul normal_to_center (collision_distance - epsilon))\<rparr>;
              let reflection_normal = vneg normal_to_center;
              d2 \<leftarrow> reflect_velocity reflection_normal d1;
              (d3, w') \<leftarrow> mark_for_split normal_to_center d2 w;
              Some (d3, True, w')
            })
         else Some (d, False, w))"

text \<open>
  The predictive check. The three variables \<open>min_collision_dt\<close>,
  \<open>colliding_segment_data\<close> and \<open>final_collision_point\<close> are assigned together: the loop's
  state is \<open>None\<close> for their initial values (infinity, \<^verbatim>\<open>None\<close>, \<^verbatim>\<open>None\<close>) and the triple
  otherwise. Every number is below infinity, so the comparison with \<open>min_collision_dt\<close>
  holds in the state \<open>None\<close>.
\<close>

type_synonym sweep_state = "(real \<times> segment \<times> vec2) option"

definition below_min_collision_dt :: "real \<Rightarrow> sweep_state \<Rightarrow> bool" where
  "below_min_collision_dt t st =
     (case st of None \<Rightarrow> True | Some (min_collision_dt, _, _) \<Rightarrow> t < min_collision_dt)"

definition sweep_segment :: "dot \<Rightarrow> real \<Rightarrow> segment \<Rightarrow> sweep_state \<Rightarrow> sweep_state" where
  "sweep_segment d manual_offset segment_data st =
     (case segment_data of (v_start, v_end, seg_vec, seg_len_sq, seg_normal_outward) \<Rightarrow>
      let p_closest = find_closest_point_on_segment (pos d) v_start v_end;
          vec_to_closest = vsub p_closest (pos d);
          moving_towards_segment_point = (vdot (vel d) vec_to_closest > - epsilon);
          moving_towards_wall_line = (vdot (vel d) seg_normal_outward > epsilon)
      in if \<not> (moving_towards_segment_point \<and> moving_towards_wall_line) then st
         else
          (let start_to_pos = vsub (pos d) v_start;
               dist_edge_to_target_line =
                 vdot start_to_pos seg_normal_outward - BOUNDARY_THICKNESS / 2
                   - manual_offset - DOT_RADIUS;
               vel_dot_normal_positive = vdot (vel d) seg_normal_outward
           in if \<bar>vel_dot_normal_positive\<bar> < epsilon then st
              else
               (let time_to_hit_line = dist_edge_to_target_line / vel_dot_normal_positive
                in if 0 - epsilon \<le> time_to_hit_line
                      \<and> below_min_collision_dt time_to_hit_line st
                   then
                    (let collision_point_on_line = vadd (pos d) (smul (vel d) time_to_hit_line);
                         vec_start_to_collision = vsub collision_point_on_line v_start;
                         proj_on_segment_sq = vdot vec_start_to_collision seg_vec
                     in if - epsilon \<le> proj_on_segment_sq
                           \<and> proj_on_segment_sq \<le> seg_len_sq + epsilon
                        then Some (time_to_hit_line, segment_data, collision_point_on_line)
                        else st)
                   else st)))"

definition predictive_sweep :: "dot \<Rightarrow> real \<Rightarrow> segment list \<Rightarrow> sweep_state" where
  "predictive_sweep d manual_offset segs = fold (sweep_segment d manual_offset) segs None"

text \<open>Processing a predictive collision.\<close>

definition resolve_predictive ::
  "dot \<Rightarrow> real \<Rightarrow> segment \<Rightarrow> vec2 \<Rightarrow> world \<Rightarrow> (dot \<times> bool \<times> world) option" where
  "resolve_predictive d manual_offset colliding_segment_data final_collision_point w =
     (case colliding_segment_data of (v_start, v_end, seg_vec, seg_len_sq, seg_normal_outward) \<Rightarrow>
      let d1 = d\<lparr>pos := final_collision_point\<rparr>;
          start_to_final_pos = vsub (pos d1) v_start;
          overlap_at_collision =
            vdot start_to_final_pos seg_normal_outward - BOUNDARY_THICKNESS / 2
              - manual_offset - DOT_RADIUS;
          d2 = (if overlap_at_collision > - epsilon
                then (let nudge_amount = overlap_at_collision + epsilon
                      in d1\<lparr>pos := vsub (pos d1) (smul seg_normal_outward nudge_amount)\<rparr>)
                else d1)
      in do {
        d3 \<leftarrow> reflect_velocity seg_normal_outward d2;
        (d4, w') \<leftarrow> mark_for_split (vneg seg_normal_outward) d3 w;
        Some (d4, True, w')
      })"

text \<open>
  The safety net. \<open>max_overlap\<close> and \<open>overlapping_segment_data\<close> are assigned together:
  the loop's state is \<open>None\<close> for their initial values (minus infinity, \<^verbatim>\<open>None\<close>).
\<close>

type_synonym overlap_state = "(real \<times> segment) option"

definition above_max_overlap :: "real \<Rightarrow> overlap_state \<Rightarrow> bool" where
  "above_max_overlap overlap st =
     (case st of None \<Rightarrow> True | Some (max_overlap, _) \<Rightarrow> overlap > max_overlap)"

definition safety_segment :: "vec2 \<Rightarrow> real \<Rightarrow> segment \<Rightarrow> overlap_state \<Rightarrow> overlap_state" where
  "safety_segment next_pos manual_offset segment_data st =
     (case segment_data of (v_start, v_end, seg_vec, seg_len_sq, seg_normal_outward) \<Rightarrow>
      let proximity_threshold_sq = (DOT_RADIUS * 3)\<^sup>2;
          p_closest_to_next = find_closest_point_on_segment next_pos v_start v_end;
          dist_sq_to_segment = length_squared (vsub next_pos p_closest_to_next)
      in if dist_sq_to_segment > proximity_threshold_sq then st
         else
          (let overlap = vdot (vsub next_pos v_start) seg_normal_outward
                           - BOUNDARY_THICKNESS / 2 - manual_offset - DOT_RADIUS
           in if above_max_overlap overlap st then Some (overlap, segment_data) else st))"

definition safety_net ::
  "dot \<Rightarrow> real \<Rightarrow> segment list \<Rightarrow> real \<Rightarrow> world \<Rightarrow> (dot \<times> bool \<times> world) option" where
  "safety_net d manual_offset segs dt w =
     (let next_pos = vadd (pos d) (smul (vel d) dt)
      in case fold (safety_segment next_pos manual_offset) segs None of
           None \<Rightarrow> Some (d, False, w)
         | Some (max_overlap, overlapping_segment_data) \<Rightarrow>
             (if max_overlap > epsilon then
                (case overlapping_segment_data of
                   (v_start, v_end, seg_vec, seg_len_sq, seg_normal_outward) \<Rightarrow>
                   let moving_towards_overlap_wall = (vdot (vel d) seg_normal_outward > epsilon)
                   in if moving_towards_overlap_wall then
                        (let d1 = d\<lparr>pos := vsub next_pos
                                             (smul seg_normal_outward (max_overlap + epsilon))\<rparr>
                         in do {
                           d2 \<leftarrow> reflect_velocity seg_normal_outward d1;
                           (d3, w') \<leftarrow> mark_for_split (vneg seg_normal_outward) d2 w;
                           Some (d3, True, w')
                         })
                      else Some (d, False, w))
              else Some (d, False, w)))"

text \<open>
  \<^verbatim>\<open>Simulation.handle_collisions\<close>: the dot as the call leaves it, the value returned
  and the world; \<open>None\<close> when a vector operation raises.
\<close>

definition handle_collisions ::
  "simulation \<Rightarrow> dot \<Rightarrow> real \<Rightarrow> world \<Rightarrow> (dot \<times> bool \<times> world) option" where
  "handle_collisions s d dt w =
     (let manual_offset = COLLISION_BOUNDS_INWARD_OFFSET (current_shape_name s)
      in case current_shape_data s of
           Circle radius \<Rightarrow> circle_collision radius manual_offset d dt w
         | Polygon verts segs \<Rightarrow>
             (case predictive_sweep d manual_offset segs of
                Some (min_collision_dt, colliding_segment_data, final_collision_point) \<Rightarrow>
                  resolve_predictive d manual_offset colliding_segment_data
                    final_collision_point w
              | None \<Rightarrow> safety_net d manual_offset segs dt w))"

subsection \<open>The update pass\<close>

text \<open>
  Lines 192 and 193 of \<^verbatim>\<open>update\<close>: the collision engine, then \<^verbatim>\<open>dot.move(dt)\<close> if it
  returned false.
\<close>

definition collide_or_move ::
  "simulation \<Rightarrow> real \<Rightarrow> dot \<Rightarrow> world \<Rightarrow> (dot \<times> world) option" where
  "collide_or_move s dt d w =
     do {
       (d1, collision_occurred, w1) \<leftarrow> handle_collisions s d dt w;
       Some (if \<not> collision_occurred then move dt d1 else d1, w1)
     }"

text \<open>
  The body of the loop over \<^verbatim>\<open>self.dots\<close>. Dots are objects, changed in place and
  compared by identity, so the list comprehension after the loop keeps exactly the dots
  that were not split, as the loop left them. The state of the loop is that list so far
  (\<open>kept\<close>), \<open>dots_to_add\<close>, \<open>dots_to_remove\<close> and the world.
\<close>

type_synonym loop_state = "dot list \<times> dot list \<times> dot list \<times> world"

definition update_dot :: "simulation \<Rightarrow> real \<Rightarrow> dot \<Rightarrow> loop_state \<Rightarrow> loop_state option" where
  "update_dot s dt d st =
     (case st of (kept, dots_to_add, dots_to_remove, w) \<Rightarrow>
      do {
        (d1, w1) \<leftarrow> collide_or_move s dt d w;
        let (due, w2) = should_split d1 w1;
        if due then
          (if int (length (dots s)) + int (length dots_to_add) - int (length dots_to_remove)
                < dot_limit s
           then do {
             (parent, new_splits, w3) \<leftarrow> split d1 w2;
             Some (kept, dots_to_add @ new_splits, dots_to_remove @ [parent], w3)
           }
           else Some (kept @ [d1\<lparr>needs_split := False\<rparr>], dots_to_add, dots_to_remove, w2))
        else Some (kept @ [d1], dots_to_add, dots_to_remove, w2)
      })"

fun update_loop :: "simulation \<Rightarrow> real \<Rightarrow> dot list \<Rightarrow> loop_state \<Rightarrow> loop_state option" where
  "update_loop s dt [] st = Some st"
| "update_loop s dt (d # ds) st =
     (case update_dot s dt d st of None \<Rightarrow> None | Some st' \<Rightarrow> update_loop s dt ds st')"

text \<open>Lines 186 to 188 of \<^verbatim>\<open>update\<close>: the spawn on the regular interval.\<close>

definition spawn_on_interval :: "simulation \<Rightarrow> int \<Rightarrow> world \<Rightarrow> simulation \<times> world" where
  "spawn_on_interval s current_time w =
     (if \<not> first_unpause s
         \<and> real_of_int (current_time - last_spawn_time s) \<ge> REGULAR_SPAWN_INTERVAL * 1000
      then (let (s', w') = (if int (length (dots s)) < dot_limit s
                            then spawn_dot s w else (s, w))
            in (s'\<lparr>last_spawn_time := current_time\<rparr>, w'))
      else (s, w))"

text \<open>
  The limit check that ends \<^verbatim>\<open>update\<close>.
\<close>

definition limit_check :: "simulation \<Rightarrow> simulation" where
  "limit_check s =
     (if int (length (dots s)) \<ge> dot_limit s \<and> \<not> limit_reached_paused s
      then s\<lparr>paused := True, limit_reached_paused := True\<rparr>
      else s)"

definition update :: "simulation \<Rightarrow> real \<Rightarrow> world \<Rightarrow> (simulation \<times> world) option" where
  "update s dt w =
     (if paused s then Some (s, w)
      else
       (let (current_time, w1) = get_ticks w;
            (s1, w2) = spawn_on_interval s current_time w1
        in do {
          (kept, dots_to_add, dots_to_remove, w3) \<leftarrow> update_loop s1 dt (dots s1) ([], [], [], w2);
          Some (limit_check (s1\<lparr>dots := kept @ dots_to_add\<rparr>), w3)
        }))"

subsection \<open>The main loop\<close>

text \<open>
  One iteration of the loop of \<^verbatim>\<open>run\<close>, given the events polled and the seconds the
  frame took: input, then (unless the input ended the run) the update. \<open>run\<close> iterates it
  over the frames, and stops when \<open>running\<close> is false.
\<close>

definition tick :: "event list \<times> real \<Rightarrow> simulation \<Rightarrow> world \<Rightarrow> (simulation \<times> world) option" where
  "tick frame s w =
     (let (events, frame_seconds) = frame;
          dt = (if frame_seconds > 1 / 10 then 1 / 10 else frame_seconds);
          (s1, w1) = handle_input events s w
      in if \<not> running s1 then Some (s1, w1) else update s1 dt w1)"

fun run :: "(event list \<times> real) list \<Rightarrow> simulation \<Rightarrow> world \<Rightarrow> (simulation \<times> world) option" where
  "run [] s w = Some (s, w)"
| "run (frame # frames) s w =
     (if \<not> running s then Some (s, w)
      else case tick frame s w of None \<Rightarrow> None | Some (s', w') \<Rightarrow> run frames s' w')"

section \<open>Notions used in the statements\<close>

text \<open>
  The offset \<^verbatim>\<open>random_offset\<close> that \<open>split_child\<close> draws in the world \<open>w\<close>:
  \<^verbatim>\<open>random.uniform(-SPLIT_ANGLE_RANGE / 2, SPLIT_ANGLE_RANGE / 2)\<close> on the next draw.
\<close>

definition child_offset :: "world \<Rightarrow> real" where
  "child_offset w = - SPLIT_ANGLE_RANGE / 2 + SPLIT_ANGLE_RANGE * draws w (draws_taken w)"

subsection \<open>The irregular polygon as the specification words it\<close>

text \<open>
  These three definitions follow the specification, not the code: the generated radius
  is the noise-perturbed base radius clamped below at \<open>base_r * 0.2\<close>, its factor is
  the radius over the target extent, and the final radius is the generated radius
  rescaled by one over the largest factor, clamped to the extent.
\<close>

definition spec_generated_radius :: "(real \<Rightarrow> real \<Rightarrow> real) \<Rightarrow> nat \<Rightarrow> real" where
  "spec_generated_radius noise2 i =
     max (base_r * (2 / 10)) (base_r + amplitude * ameba_noise_val noise2 i)"

definition spec_generated_factor :: "(real \<Rightarrow> real \<Rightarrow> real) \<Rightarrow> nat \<Rightarrow> real" where
  "spec_generated_factor noise2 i = spec_generated_radius noise2 i / real_of_int max_extent_radius"

definition spec_blob_radius :: "(real \<Rightarrow> real \<Rightarrow> real) \<Rightarrow> nat \<Rightarrow> real" where
  "spec_blob_radius noise2 i =
     min (spec_generated_radius noise2 i
            * (1 / Max (spec_generated_factor noise2 ` {0..<num_vertices_ameba})))
         (real_of_int max_extent_radius)"

subsection \<open>The quantities of the predictive check\<close>

text \<open>
  The expressions that \<open>sweep_segment\<close> computes for a dot and one edge, named as in
  the code: the time to hit the edge's offset line, the collision point on that line, and
  the conditions under which the edge is taken as a candidate.
\<close>

definition time_to_hit_line :: "dot \<Rightarrow> real \<Rightarrow> segment \<Rightarrow> real" where
  "time_to_hit_line d manual_offset segment_data =
     (case segment_data of (v_start, v_end, seg_vec, seg_len_sq, seg_normal_outward) \<Rightarrow>
        (vdot (vsub (pos d) v_start) seg_normal_outward - BOUNDARY_THICKNESS / 2
           - manual_offset - DOT_RADIUS)
        / vdot (vel d) seg_normal_outward)"

definition collision_point_on_line :: "dot \<Rightarrow> real \<Rightarrow> segment \<Rightarrow> vec2" where
  "collision_point_on_line d manual_offset segment_data =
     vadd (pos d) (smul (vel d) (time_to_hit_line d manual_offset segment_data))"

definition moving_towards :: "dot \<Rightarrow> segment \<Rightarrow> bool" where
  "moving_towards d segment_data =
     (case segment_data of (v_start, v_end, seg_vec, seg_len_sq, seg_normal_outward) \<Rightarrow>
        vdot (vel d) (vsub (find_closest_point_on_segment (pos d) v_start v_end) (pos d))
          > - epsilon
        \<and> vdot (vel d) seg_normal_outward > epsilon)"

definition projects_onto_segment :: "dot \<Rightarrow> real \<Rightarrow> segment \<Rightarrow> bool" where
  "projects_onto_segment d manual_offset segment_data =
     (case segment_data of (v_start, v_end, seg_vec, seg_len_sq, seg_normal_outward) \<Rightarrow>
        - epsilon \<le> vdot (vsub (collision_point_on_line d manual_offset segment_data) v_start)
                      seg_vec
        \<and> vdot (vsub (collision_point_on_line d manual_offset segment_data) v_start) seg_vec
            \<le> seg_len_sq + epsilon)"

definition edge_qualifies :: "dot \<Rightarrow> real \<Rightarrow> segment \<Rightarrow> bool" where
  "edge_qualifies d manual_offset segment_data =
     (moving_towards d segment_data
      \<and> - epsilon \<le> time_to_hit_line d manual_offset segment_data
      \<and> projects_onto_segment d manual_offset segment_data)"

subsection \<open>The depth of a point beyond an edge's collision line\<close>

text \<open>
  The expression that \<^verbatim>\<open>handle_collisions\<close> computes at lines 147, 158 and 169 for a
  point \<open>q\<close> and an edge: the component of \<open>q - v_start\<close> along the outward normal, less
  half the boundary thickness, the manual offset and the dot radius. It is positive
  beyond the edge's collision line and negative inside it.
\<close>

definition overlap_depth :: "real \<Rightarrow> segment \<Rightarrow> vec2 \<Rightarrow> real" where
  "overlap_depth manual_offset segment_data q =
     (case segment_data of (v_start, v_end, seg_vec, seg_len_sq, seg_normal_outward) \<Rightarrow>
        vdot (vsub q v_start) seg_normal_outward - BOUNDARY_THICKNESS / 2
          - manual_offset - DOT_RADIUS)"

subsection \<open>Well-formed shapes\<close>

text \<open>
  Every segment of a polygon carries an outward normal of length one. The segments that
  \<^verbatim>\<open>define_shapes\<close> builds are of this kind (lemma \<open>polygon_shape_unit_normals\<close>).
\<close>

definition unit_normals :: "shape \<Rightarrow> bool" where
  "unit_normals sh =
     (case sh of
        Circle radius \<Rightarrow> True
      | Polygon verts segs \<Rightarrow>
          list_all (\<lambda>segment_data.
                      case segment_data of (v_start, v_end, seg_vec, seg_len_sq, seg_normal_outward)
                        \<Rightarrow> length_squared seg_normal_outward = 1) segs)"

text \<open>
  The common end of the three collision branches of \<^verbatim>\<open>handle_collisions\<close>, for a dot
  placed at \<open>p\<close>: reflect about \<open>n\<close>, mark with \<open>m\<close>, return true.
\<close>

abbreviation collide_at ::
  "vec2 \<Rightarrow> vec2 \<Rightarrow> vec2 \<Rightarrow> dot \<Rightarrow> world \<Rightarrow> (dot \<times> bool \<times> world) option" where
  "collide_at p n m d w \<equiv>
     reflect_velocity n (d\<lparr>pos := p\<rparr>)
       \<bind> (\<lambda>d2. mark_for_split m d2 w \<bind> (\<lambda>(d3, w'). Some (d3, True, w')))"

text \<open>A marked dot stores a normal of length one.\<close>

definition normal_ok :: "dot \<Rightarrow> bool" where
  "normal_ok d =
     (needs_split d
        \<longrightarrow> (case last_collision_normal d of None \<Rightarrow> False | Some n \<Rightarrow> length_squared n = 1))"

subsection \<open>The place and the normal of a collision\<close>

text \<open>
  \<open>wall_contact s d dt p n\<close> says that \<open>p\<close> and \<open>n\<close> are the position and the outward unit
  normal that \<^verbatim>\<open>handle_collisions\<close> computes for the dot \<open>d\<close> when it finds a collision.

  On the circle, \<open>- n\<close> is the unit vector from the dot's next position to the centre
  (or \<open>(0, 1)\<close> when the next position is the centre), and \<open>p\<close> lies on that ray from the
  centre, at the collision distance less \<open>epsilon\<close>.

  On a polygon, \<open>n\<close> is the outward normal of an edge that the dot moves into, and \<open>p\<close> is
  at least \<open>epsilon\<close> inside that edge's collision line: it is the collision point of the
  edge that the predictive check selected, pushed back along \<open>n\<close> when it overlaps, or,
  when the predictive check found no edge, the next position pushed back along \<open>n\<close> by the
  depth of its overlap plus \<open>epsilon\<close>.
\<close>

definition wall_contact :: "simulation \<Rightarrow> dot \<Rightarrow> real \<Rightarrow> vec2 \<Rightarrow> vec2 \<Rightarrow> bool" where
  "wall_contact s d dt p n =
     (let manual_offset = COLLISION_BOUNDS_INWARD_OFFSET (current_shape_name s);
          next_pos = vadd (pos d) (smul (vel d) dt)
      in case current_shape_data s of
           Circle radius \<Rightarrow>
             (let collision_distance =
                    max 0 (radius - BOUNDARY_THICKNESS / 2 - manual_offset - DOT_RADIUS);
                  vec_to_center = vsub center_pos next_pos
              in length_squared n = 1
                 \<and> (if vlength vec_to_center > epsilon
                     then normalize vec_to_center = Some (vneg n)
                     else vneg n = (0, 1))
                 \<and> p = vsub center_pos (smul (vneg n) (collision_distance - epsilon))
                 \<and> length_squared (vsub center_pos p)
                     = (collision_distance - epsilon) * (collision_distance - epsilon))
         | Polygon verts segs \<Rightarrow>
             (\<exists>sg \<in> set segs.
                (case sg of (v_start, v_end, seg_vec, seg_len_sq, seg_normal_outward) \<Rightarrow>
                   seg_normal_outward = n)
                \<and> length_squared n = 1
                \<and> vdot (vel d) n > epsilon
                \<and> overlap_depth manual_offset sg p \<le> - epsilon
                \<and> ((predictive_sweep d manual_offset segs
                       = Some (time_to_hit_line d manual_offset sg, sg,
                               collision_point_on_line d manual_offset sg)
                     \<and> p = (let q = collision_point_on_line d manual_offset sg;
                                overlap_at_collision = overlap_depth manual_offset sg q
                            in if overlap_at_collision > - epsilon
                               then vsub q (smul n (overlap_at_collision + epsilon))
                               else q))
                   \<or> (predictive_sweep d manual_offset segs = None
                      \<and> overlap_depth manual_offset sg next_pos > epsilon
                      \<and> p = vsub next_pos
                               (smul n (overlap_depth manual_offset sg next_pos + epsilon))))))"

section \<open>Concrete inputs\<close>

text \<open>A world whose clock always reads 100 ms and whose random draws are all one half.\<close>

definition steady_world :: world where
  "steady_world = \<lparr>clock = (\<lambda>_. 100), clock_reads = 0, draws = (\<lambda>_. 1 / 2), draws_taken = 0\<rparr>"

text \<open>A dot marked at time 0 with the inward normal \<open>(1, 0)\<close>.\<close>

definition marked_dot :: dot where
  "marked_dot = (Dot 100 200 30 40 (50, 60, 70))\<lparr>needs_split := True, split_timer_start := 0,
       last_collision_normal := Some (1, 0)\<rparr>"

text \<open>
  A paused simulation on the circle, as after the second time the cap was reached:
  20000 dots, a cap of 20000, the flag set.
\<close>

definition capped_sim :: simulation where
  "capped_sim =
     \<lparr>dots = replicate 20000 (Dot 540 540 200 0 (153, 153, 153)), paused = True, running = True,
      dot_limit = 20000, last_spawn_time = 0, limit_reached_paused = True,
      first_unpause = False, current_shape_name = ''Circle'',
      current_shape_data = Circle 486, shape_definitions = Map.empty\<rparr>"

text \<open>
  A square with corners \<open>(0, 0)\<close> and \<open>(100, 100)\<close>, its vertices in the order
  \<^verbatim>\<open>define_shapes\<close> uses for the square, and the segments the last loop of
  \<^verbatim>\<open>define_shapes\<close> builds from them. \<open>bottom_edge\<close> is the third, with outward normal
  \<open>(0, 1)\<close>.
\<close>

definition square_vertices :: "vec2 list" where
  "square_vertices = [(0, 0), (100, 0), (100, 100), (0, 100)]"

definition bottom_edge :: segment where
  "bottom_edge = ((100, 100), (0, 100), (- 100, 0), 10000, (0, 1))"

definition square_segments :: "segment list" where
  "square_segments =
     [((0, 0), (100, 0), (100, 0), 10000, (0, - 1)),
      ((100, 0), (100, 100), (0, 100), 10000, (1, 0)),
      bottom_edge,
      ((0, 100), (0, 0), (0, - 100), 10000, (- 1, 0))]"

text \<open>A running simulation on that square, under the name \<^verbatim>\<open>'Square'\<close>, with no dots.\<close>

definition square_sim :: simulation where
  "square_sim =
     \<lparr>dots = [], paused = False, running = True,
      dot_limit = 10000, last_spawn_time = 0, limit_reached_paused = False,
      first_unpause = False, current_shape_name = ''Square'',
      current_shape_data = Polygon square_vertices square_segments,
      shape_definitions = Map.empty\<rparr>"

text \<open>
  Two dots of speed 200 heading for the bottom edge at a shallow angle: the first half a
  unit above the edge, the second just short of the edge's offset line \<open>y = 97.5\<close>.
\<close>

definition grazing_dot :: dot where
  "grazing_dot = Dot 50 (199 / 2) 192 56 (153, 153, 153)"


text \<open>A dot of speed 200 in the middle of the square.\<close>

definition inner_dot :: dot where
  "inner_dot = Dot 50 50 192 56 (153, 153, 153)"

text \<open>
  A dot in the middle of the square, marked at time 0 with the inward normal \<open>(1, 0)\<close>:
  its split is due when the clock reads 100 ms.
\<close>

definition due_dot :: dot where
  "due_dot = inner_dot\<lparr>needs_split := True, last_collision_normal := Some (1, 0)\<rparr>"

text \<open>
  A running simulation on the square at its cap: 10000 dots, the first of them due, and
  a cap of 10000.
\<close>

definition full_sim :: simulation where
  "full_sim = square_sim\<lparr>dots := due_dot # replicate 9999 inner_dot\<rparr>"

text \<open>A running simulation on the square with two due dots and a cap of three.\<close>

definition crowded_sim :: simulation where
  "crowded_sim = square_sim\<lparr>dots := [due_dot, due_dot], dot_limit := 3\<rparr>"

text \<open>A simulation on a circle of radius 25, in any state before a reset.\<close>

definition small_circle_sim :: simulation where
  "small_circle_sim =
     \<lparr>dots = [], paused = False, running = False,
      dot_limit = 0, last_spawn_time = 0, limit_reached_paused = False,
      first_unpause = False, current_shape_name = ''Circle'',
      current_shape_data = Circle 25, shape_definitions = Map.empty\<rparr>"

section \<open>Marking\<close>

text \<open>
  C10. A call of \<open>mark_for_split\<close> on a dot whose \<open>needs_split\<close> flag is already set
  succeeds and changes nothing: the timer start, the stored normal and the flag (indeed
  the whole dot) stay as they were, and the clock is not read.
\<close>

theorem mark_for_split_idempotent:
  "needs_split d \<Longrightarrow> mark_for_split n d w = Some (d, w)"
  by (simp add: mark_for_split_def)

theorem mark_for_split_idempotent_witness:
  "needs_split marked_dot
   \<and> mark_for_split (0, 1) marked_dot steady_world = Some (marked_dot, steady_world)"
proof -
  have h: "needs_split marked_dot" by (simp add: marked_dot_def)
  show ?thesis
    using mark_for_split_idempotent [OF h, of "(0, 1)" steady_world] h by simp
qed

section \<open>Vectors and angles\<close>

lemma radians_degrees [simp]: "radians (degrees a) = a"
  by (simp add: radians_def degrees_def)

lemma length_squared_from_polar: "length_squared (from_polar r phi) = r * r"
proof -
  have "(r * c) * (r * c) + (r * s) * (r * s) = r * r * (c * c + s * s)" for c s :: real
    by (simp only: distrib_left mult_ac)
  from this [of "cos (radians phi)" "sin (radians phi)"]
  show ?thesis by (simp add: length_squared_def from_polar_def)
qed

lemma vlength_from_polar: "0 \<le> r \<Longrightarrow> vlength (from_polar r phi) = r"
  by (simp add: vlength_def length_squared_from_polar)

lemma normalize_from_polar:
  "0 < r \<Longrightarrow> normalize (from_polar r phi) = Some (from_polar 1 phi)"
  by (simp add: normalize_def vlength_from_polar Let_def) (simp add: from_polar_def)

lemma cos_sin_arctan_div:
  assumes "0 < x"
  shows "cos (arctan (y / x)) = x / sqrt (x * x + y * y)"
    and "sin (arctan (y / x)) = y / sqrt (x * x + y * y)"
proof -
  have e: "1 + (y / x)\<^sup>2 = (x * x + y * y) / (x * x)"
    using assms by (simp add: power2_eq_square field_simps)
  have s: "sqrt (1 + (y / x)\<^sup>2) = sqrt (x * x + y * y) / x"
    using assms by (simp add: e real_sqrt_divide)
  show "cos (arctan (y / x)) = x / sqrt (x * x + y * y)"
    by (simp add: cos_arctan s)
  show "sin (arctan (y / x)) = y / sqrt (x * x + y * y)"
    using assms by (simp add: sin_arctan s)
qed

lemma cos_sin_arctan_div_neg:
  assumes "x < 0"
  shows "cos (arctan (y / x)) = - x / sqrt (x * x + y * y)"
    and "sin (arctan (y / x)) = - y / sqrt (x * x + y * y)"
  using cos_sin_arctan_div [of "- x" "- y"] assms by simp_all

text \<open>\<open>atan2\<close> gives the polar angle of every vector but zero.\<close>

lemma atan2_polar:
  assumes "length_squared (x, y) \<noteq> 0"
  shows "x = vlength (x, y) * cos (atan2 y x)" and "y = vlength (x, y) * sin (atan2 y x)"
proof -
  have nz: "x \<noteq> 0 \<or> y \<noteq> 0" using assms by (auto simp: length_squared_def)
  have p: "0 < sqrt (x * x + y * y)"
    using nz by (metis add_pos_nonneg add_nonneg_pos not_real_square_gt_zero
        real_sqrt_gt_zero zero_le_square)
  show "x = vlength (x, y) * cos (atan2 y x)"
    using p nz
    by (cases "0 < x"; cases "x < 0")
       (auto simp: atan2_def vlength_def length_squared_def cos_sin_arctan_div
          cos_sin_arctan_div_neg)
  show "y = vlength (x, y) * sin (atan2 y x)"
    using p nz
    by (cases "0 < x"; cases "x < 0")
       (auto simp: atan2_def vlength_def length_squared_def cos_sin_arctan_div
          cos_sin_arctan_div_neg)
qed

lemma stored_normal_angle_eq: "stored_normal_angle n = degrees (atan2 (snd n) (fst n))"
  by (simp add: stored_normal_angle_def angle_to_def atan2_def degrees_def)

lemma from_polar_stored_normal_angle:
  "length_squared n \<noteq> 0 \<Longrightarrow> from_polar (vlength n) (stored_normal_angle n) = n"
  using atan2_polar [of "fst n" "snd n"]
  by (simp add: stored_normal_angle_eq from_polar_def prod_eq_iff)

lemma sqrt_40000: "sqrt 40000 = 200"
  by (rule real_sqrt_unique) simp_all

lemma sqrt_160000: "sqrt 160000 = 400"
  by (rule real_sqrt_unique) simp_all

section \<open>Splitting\<close>

lemma snd_random_color: "snd (random_color w) = w\<lparr>draws_taken := draws_taken w + 3\<rparr>"
  by (simp add: random_color_def randint_def random_draw_def Let_def case_prod_beta)

lemma split_child_spec:
  "\<exists>c. split_child p a w = Some (c, w\<lparr>draws_taken := draws_taken w + 4\<rparr>)
       \<and> vel c = from_polar INITIAL_DOT_SPEED (a + child_offset w)
       \<and> pos c = vadd p (smul (from_polar 1 (a + child_offset w)) (DOT_RADIUS * (11 / 10)))
       \<and> \<not> needs_split c \<and> last_collision_normal c = None"
proof -
  have n: "normalize (from_polar INITIAL_DOT_SPEED x) = Some (from_polar 1 x)" for x
    by (rule normalize_from_polar) (simp add: INITIAL_DOT_SPEED_def)
  have u: "uniform (- (SPLIT_ANGLE_RANGE / 2)) (SPLIT_ANGLE_RANGE / 2) w
             = (child_offset w, w\<lparr>draws_taken := draws_taken w + 1\<rparr>)"
    by (simp add: uniform_def random_draw_def child_offset_def)
  have pos: "INITIAL_DOT_SPEED > 0"
    by (simp add: INITIAL_DOT_SPEED_def)
  show ?thesis
    by (simp add: split_child_def u n pos Let_def case_prod_beta snd_random_color Dot_def)
qed

lemma child_offset_bounds:
  assumes "0 \<le> draws w (draws_taken w)" and "draws w (draws_taken w) \<le> 1"
  shows "\<bar>child_offset w\<bar> \<le> SPLIT_ANGLE_RANGE / 2"
  using assms by (simp add: child_offset_def SPLIT_ANGLE_RANGE_def abs_le_iff)

lemma normal_for_split_flag [simp]:
  "normal_for_split (d\<lparr>needs_split := b\<rparr>) p = normal_for_split d p"
  by (simp add: normal_for_split_def)

text \<open>What a split returns, given the normal it uses.\<close>

lemma split_spec:
  assumes "normal_for_split d (pos d) = Some normal"
  shows "\<exists>c1 c2. split d w = Some (d\<lparr>needs_split := False, last_collision_normal := None\<rparr>,
                                  [c1, c2], w\<lparr>draws_taken := draws_taken w + 8\<rparr>)
           \<and> vel c1 = from_polar INITIAL_DOT_SPEED (stored_normal_angle normal + child_offset w)
           \<and> vel c2 = from_polar INITIAL_DOT_SPEED
                        (stored_normal_angle normal
                          + child_offset (w\<lparr>draws_taken := draws_taken w + 4\<rparr>))
           \<and> pos c1 = vadd (pos d) (smul (from_polar 1 (stored_normal_angle normal + child_offset w))
                                         (DOT_RADIUS * (11 / 10)))
           \<and> pos c2 = vadd (pos d)
                        (smul (from_polar 1 (stored_normal_angle normal
                                 + child_offset (w\<lparr>draws_taken := draws_taken w + 4\<rparr>)))
                              (DOT_RADIUS * (11 / 10)))
           \<and> \<not> needs_split c1 \<and> last_collision_normal c1 = None
           \<and> \<not> needs_split c2 \<and> last_collision_normal c2 = None"
proof -
  obtain c1 where c1: "split_child (pos d) (stored_normal_angle normal) w
                         = Some (c1, w\<lparr>draws_taken := draws_taken w + 4\<rparr>)"
      "vel c1 = from_polar INITIAL_DOT_SPEED (stored_normal_angle normal + child_offset w)"
      "pos c1 = vadd (pos d) (smul (from_polar 1 (stored_normal_angle normal + child_offset w))
                                         (DOT_RADIUS * (11 / 10)))"
      "\<not> needs_split c1" "last_collision_normal c1 = None"
    using split_child_spec [of "pos d" "stored_normal_angle normal" w] by blast
  obtain c2 where c2: "split_child (pos d) (stored_normal_angle normal)
                           (w\<lparr>draws_taken := draws_taken w + 4\<rparr>)
                         = Some (c2, w\<lparr>draws_taken := draws_taken w + 8\<rparr>)"
      "vel c2 = from_polar INITIAL_DOT_SPEED (stored_normal_angle normal
                    + child_offset (w\<lparr>draws_taken := draws_taken w + 4\<rparr>))"
      "pos c2 = vadd (pos d) (smul (from_polar 1 (stored_normal_angle normal
                    + child_offset (w\<lparr>draws_taken := draws_taken w + 4\<rparr>)))
                                         (DOT_RADIUS * (11 / 10)))"
      "\<not> needs_split c2" "last_collision_normal c2 = None"
    using split_child_spec [of "pos d" "stored_normal_angle normal"
                               "w\<lparr>draws_taken := draws_taken w + 4\<rparr>"] by auto
  have "split d w = Some (d\<lparr>needs_split := False, last_collision_normal := None\<rparr>,
                                  [c1, c2], w\<lparr>draws_taken := draws_taken w + 8\<rparr>)"
    using assms c1(1) c2(1)
    by (simp add: split_def Let_def)
  with c1 c2 show ?thesis by blast
qed

lemma split_Some_normal:
  assumes "split d w = Some r"
  shows "\<exists>normal. normal_for_split d (pos d) = Some normal"
  using assms by (cases "normal_for_split d (pos d)") (simp_all add: split_def Let_def)

text \<open>The split of \<open>marked_dot\<close> when every draw is one half: both offsets are zero.\<close>

lemma split_marked_dot:
  "split marked_dot steady_world =
     Some (marked_dot\<lparr>needs_split := False, last_collision_normal := None\<rparr>,
           [Dot (211 / 2) 200 200 0 (153, 153, 153), Dot (211 / 2) 200 200 0 (153, 153, 153)],
           steady_world\<lparr>draws_taken := 8\<rparr>)"
  by (simp add: split_def split_child_def uniform_def random_draw_def random_color_def randint_def
      from_polar_def radians_def normalize_def vlength_def length_squared_def
      stored_normal_angle_def angle_to_def atan2_def degrees_def Dot_def normal_for_split_def
      marked_dot_def steady_world_def SPLIT_ANGLE_RANGE_def INITIAL_DOT_SPEED_def DOT_RADIUS_def
      vadd_def smul_def sqrt_40000 Let_def)

text \<open>
  C5, as stated, fails: the two children of the split of \<open>marked_dot\<close> both move at
  200 units, the configured initial speed, so their speeds add up to 400, and so does the
  length of the sum of their velocities.
\<close>

theorem split_combined_speed_counterexample:
  "split marked_dot steady_world =
     Some (marked_dot\<lparr>needs_split := False, last_collision_normal := None\<rparr>,
           [Dot (211 / 2) 200 200 0 (153, 153, 153), Dot (211 / 2) 200 200 0 (153, 153, 153)],
           steady_world\<lparr>draws_taken := 8\<rparr>)
   \<and> INITIAL_DOT_SPEED = 200
   \<and> vlength (vel (Dot (211 / 2) 200 200 0 (153, 153, 153)))
       + vlength (vel (Dot (211 / 2) 200 200 0 (153, 153, 153))) = 400
   \<and> vlength (vadd (vel (Dot (211 / 2) 200 200 0 (153, 153, 153)))
                    (vel (Dot (211 / 2) 200 200 0 (153, 153, 153)))) = 400"
  using split_marked_dot
  by (simp add: INITIAL_DOT_SPEED_def Dot_def vlength_def length_squared_def vadd_def
      sqrt_40000 sqrt_160000)

text \<open>
  C5, amended. Every executed split produces two children, each of which moves at the
  configured initial speed, whatever the speed of the parent; their speeds add up to twice
  the initial speed.
\<close>

theorem split_children_speed:
  assumes "split d w = Some (parent, new_dots, w')"
  shows "\<exists>c1 c2. new_dots = [c1, c2]
           \<and> vlength (vel c1) = INITIAL_DOT_SPEED \<and> vlength (vel c2) = INITIAL_DOT_SPEED
           \<and> vlength (vel c1) + vlength (vel c2) = 2 * INITIAL_DOT_SPEED"
proof -
  obtain normal where "normal_for_split d (pos d) = Some normal"
    using split_Some_normal [OF assms] by blast
  from split_spec [OF this, of w] assms
  obtain c1 c2 where c: "new_dots = [c1, c2]"
      "vel c1 = from_polar INITIAL_DOT_SPEED (stored_normal_angle normal + child_offset w)"
      "vel c2 = from_polar INITIAL_DOT_SPEED
                  (stored_normal_angle normal
                    + child_offset (w\<lparr>draws_taken := draws_taken w + 4\<rparr>))"
    by auto
  have "0 \<le> INITIAL_DOT_SPEED" by (simp add: INITIAL_DOT_SPEED_def)
  then have "vlength (vel c1) = INITIAL_DOT_SPEED" "vlength (vel c2) = INITIAL_DOT_SPEED"
    by (simp_all add: c vlength_from_polar)
  with c(1) show ?thesis by simp
qed

theorem split_children_speed_witness:
  "split marked_dot steady_world =
     Some (marked_dot\<lparr>needs_split := False, last_collision_normal := None\<rparr>,
           [Dot (211 / 2) 200 200 0 (153, 153, 153), Dot (211 / 2) 200 200 0 (153, 153, 153)],
           steady_world\<lparr>draws_taken := 8\<rparr>)
   \<and> vlength (vel (Dot (211 / 2) 200 200 0 (153, 153, 153))) = INITIAL_DOT_SPEED
   \<and> vlength (vel marked_dot) = 50"
proof -
  have "vlength (vel marked_dot) = 50"
    by (simp add: vlength_def length_squared_def marked_dot_def Dot_def)
  then show ?thesis
    using split_children_speed [OF split_marked_dot] split_marked_dot by simp
qed

text \<open>
  C6. A split of a dot that stores the inward normal \<open>n\<close>, in a world whose random draws
  lie in the unit interval, succeeds and produces exactly two children. The angle the
  code derives from \<open>n\<close> is the polar angle of \<open>n\<close>. Each child moves at the initial speed,
  in a direction whose angle is within half of \<open>SPLIT_ANGLE_RANGE\<close> of that angle, and
  starts at the parent's position plus the unit vector of its velocity scaled by
  \<open>DOT_RADIUS * 1.1\<close>.
\<close>

theorem split_geometry:
  assumes "last_collision_normal d = Some n"
      and "\<forall>i. 0 \<le> draws w i \<and> draws w i \<le> 1"
  shows "\<exists>c1 c2 w'.
           split d w = Some (d\<lparr>needs_split := False, last_collision_normal := None\<rparr>,
                             [c1, c2], w')
         \<and> (length_squared n \<noteq> 0 \<longrightarrow> from_polar (vlength n) (stored_normal_angle n) = n)
         \<and> (\<forall>c \<in> set [c1, c2].
               vlength (vel c) = INITIAL_DOT_SPEED
             \<and> (\<exists>delta. \<bar>delta\<bar> \<le> SPLIT_ANGLE_RANGE / 2
                       \<and> vel c = from_polar INITIAL_DOT_SPEED (stored_normal_angle n + delta))
             \<and> (\<exists>u. normalize (vel c) = Some u
                   \<and> pos c = vadd (pos d) (smul u (DOT_RADIUS * (11 / 10)))))"
proof -
  have nf: "normal_for_split d (pos d) = Some n"
    using assms(1) by (simp add: normal_for_split_def)
  let ?o1 = "child_offset w"
  let ?o2 = "child_offset (w\<lparr>draws_taken := draws_taken w + 4\<rparr>)"
  from split_spec [OF nf, of w]
  obtain c1 c2 where c:
      "split d w = Some (d\<lparr>needs_split := False, last_collision_normal := None\<rparr>,
                         [c1, c2], w\<lparr>draws_taken := draws_taken w + 8\<rparr>)"
      "vel c1 = from_polar INITIAL_DOT_SPEED (stored_normal_angle n + ?o1)"
      "vel c2 = from_polar INITIAL_DOT_SPEED (stored_normal_angle n + ?o2)"
      "pos c1 = vadd (pos d) (smul (from_polar 1 (stored_normal_angle n + ?o1))
                                   (DOT_RADIUS * (11 / 10)))"
      "pos c2 = vadd (pos d) (smul (from_polar 1 (stored_normal_angle n + ?o2))
                                   (DOT_RADIUS * (11 / 10)))"
    by blast
  have sp: "0 < INITIAL_DOT_SPEED" by (simp add: INITIAL_DOT_SPEED_def)
  have b1: "\<bar>?o1\<bar> \<le> SPLIT_ANGLE_RANGE / 2"
    using assms(2) by (intro child_offset_bounds) auto
  have b2: "\<bar>?o2\<bar> \<le> SPLIT_ANGLE_RANGE / 2"
    using assms(2) by (intro child_offset_bounds) auto
  have k1: "vlength (vel c1) = INITIAL_DOT_SPEED
             \<and> (\<exists>delta. \<bar>delta\<bar> \<le> SPLIT_ANGLE_RANGE / 2
                       \<and> vel c1 = from_polar INITIAL_DOT_SPEED (stored_normal_angle n + delta))
             \<and> (\<exists>u. normalize (vel c1) = Some u
                   \<and> pos c1 = vadd (pos d) (smul u (DOT_RADIUS * (11 / 10))))"
    using sp b1 c(2,4) by (auto simp: vlength_from_polar normalize_from_polar)
  have k2: "vlength (vel c2) = INITIAL_DOT_SPEED
             \<and> (\<exists>delta. \<bar>delta\<bar> \<le> SPLIT_ANGLE_RANGE / 2
                       \<and> vel c2 = from_polar INITIAL_DOT_SPEED (stored_normal_angle n + delta))
             \<and> (\<exists>u. normalize (vel c2) = Some u
                   \<and> pos c2 = vadd (pos d) (smul u (DOT_RADIUS * (11 / 10))))"
    using sp b2 c(3,5) by (auto simp: vlength_from_polar normalize_from_polar)
  have ang: "length_squared n \<noteq> 0 \<longrightarrow> from_polar (vlength n) (stored_normal_angle n) = n"
    by (simp add: from_polar_stored_normal_angle)
  show ?thesis
    using c(1) k1 k2 ang by auto
qed

theorem split_geometry_witness:
  "last_collision_normal marked_dot = Some (1, 0)
   \<and> (\<forall>i. 0 \<le> draws steady_world i \<and> draws steady_world i \<le> 1)
   \<and> split marked_dot steady_world =
       Some (marked_dot\<lparr>needs_split := False, last_collision_normal := None\<rparr>,
             [Dot (211 / 2) 200 200 0 (153, 153, 153), Dot (211 / 2) 200 200 0 (153, 153, 153)],
             steady_world\<lparr>draws_taken := 8\<rparr>)
   \<and> from_polar (vlength (1, 0)) (stored_normal_angle (1, 0)) = (1, 0)
   \<and> vlength (vel (Dot (211 / 2) 200 200 0 (153, 153, 153))) = INITIAL_DOT_SPEED
   \<and> normalize (vel (Dot (211 / 2) 200 200 0 (153, 153, 153))) = Some (1, 0)
   \<and> pos (Dot (211 / 2) 200 200 0 (153, 153, 153))
       = vadd (pos marked_dot) (smul (1, 0) (DOT_RADIUS * (11 / 10)))"
proof -
  have h1: "last_collision_normal marked_dot = Some (1, 0)"
    by (simp add: marked_dot_def)
  have h2: "\<forall>i. 0 \<le> draws steady_world i \<and> draws steady_world i \<le> 1"
    by (simp add: steady_world_def)
  have n: "normalize (vel (Dot (211 / 2) 200 200 0 (153, 153, 153))) = Some (1, 0)"
    by (simp add: normalize_def Dot_def vlength_def length_squared_def sqrt_40000)
  have p: "pos (Dot (211 / 2) 200 200 0 (153, 153, 153))
       = vadd (pos marked_dot) (smul (1, 0) (DOT_RADIUS * (11 / 10)))"
    by (simp add: Dot_def marked_dot_def vadd_def smul_def DOT_RADIUS_def)
  show ?thesis
    using split_geometry [OF h1 h2] split_marked_dot h1 h2 n p
    by (auto simp: length_squared_def)
qed

section \<open>Unpausing\<close>

lemma spawn_dot_fields [simp]:
  "dot_limit (fst (spawn_dot s w)) = dot_limit s"
  "limit_reached_paused (fst (spawn_dot s w)) = limit_reached_paused s"
  "paused (fst (spawn_dot s w)) = paused s"
  "first_unpause (fst (spawn_dot s w)) = first_unpause s"
  "running (fst (spawn_dot s w)) = running s"
  "last_spawn_time (fst (spawn_dot s w)) = last_spawn_time s"
  by (simp_all add: spawn_dot_def Let_def case_prod_beta)

lemma spawn_dot_dots:
  "\<exists>c. dots (fst (spawn_dot s w)) = dots s @ [c] \<and> \<not> needs_split c
        \<and> last_collision_normal c = None"
  by (simp add: spawn_dot_def Let_def case_prod_beta Dot_def)

text \<open>The fields of the state after a press of the space bar.\<close>

lemma handle_space_paused:
  assumes "paused s"
  shows "dot_limit (fst (handle_space s w))
           = (if limit_reached_paused s then dot_limit s + INITIAL_DOT_LIMIT else dot_limit s)"
    and "\<not> limit_reached_paused (fst (handle_space s w))"
    and "\<not> paused (fst (handle_space s w))"
  using assms by (simp_all add: handle_space_def Let_def case_prod_beta)

text \<open>
  C2, as stated, fails: unpausing \<open>capped_sim\<close>, whose cap is 20000 and whose flag is
  set, gives a cap of 30000, not 40000.
\<close>

theorem unpause_doubles_cap_counterexample:
  "paused capped_sim \<and> limit_reached_paused capped_sim \<and> dot_limit capped_sim = 20000
   \<and> dot_limit (fst (handle_input [KEYDOWN K_SPACE] capped_sim steady_world)) = 30000"
  by (simp add: handle_input_def handle_event_def handle_space_def capped_sim_def
      INITIAL_DOT_LIMIT_def)

text \<open>
  C2, amended. In every paused state in which the cap-reached flag is set, the unpause
  operation (a press of the space bar) raises the population cap by the configured
  initial cap, clears the flag and unpauses. The new cap is twice the old one exactly when
  the old cap is the initial one, as at the first time the cap is reached.
\<close>

theorem unpause_raises_cap:
  assumes "paused s" and "limit_reached_paused s"
  shows "dot_limit (fst (handle_input [KEYDOWN K_SPACE] s w)) = dot_limit s + INITIAL_DOT_LIMIT
       \<and> \<not> limit_reached_paused (fst (handle_input [KEYDOWN K_SPACE] s w))
       \<and> \<not> paused (fst (handle_input [KEYDOWN K_SPACE] s w))
       \<and> (dot_limit (fst (handle_input [KEYDOWN K_SPACE] s w)) = 2 * dot_limit s
            \<longleftrightarrow> dot_limit s = INITIAL_DOT_LIMIT)"
proof -
  have e: "handle_input [KEYDOWN K_SPACE] s w = handle_space s w"
    by (simp add: handle_input_def handle_event_def)
  show ?thesis
    using handle_space_paused [OF assms(1), of w] assms(2) by (auto simp: e)
qed

theorem unpause_raises_cap_witness:
  "paused capped_sim \<and> limit_reached_paused capped_sim
   \<and> dot_limit (fst (handle_input [KEYDOWN K_SPACE] capped_sim steady_world))
       = dot_limit capped_sim + INITIAL_DOT_LIMIT
   \<and> \<not> limit_reached_paused (fst (handle_input [KEYDOWN K_SPACE] capped_sim steady_world))
   \<and> \<not> paused (fst (handle_input [KEYDOWN K_SPACE] capped_sim steady_world))"
proof -
  have h1: "paused capped_sim" by (simp add: capped_sim_def)
  have h2: "limit_reached_paused capped_sim" by (simp add: capped_sim_def)
  show ?thesis
    using unpause_raises_cap [OF h1 h2, of steady_world] h1 h2 by simp
qed

section \<open>Reflection\<close>

lemma mirror_length:
  fixes vx vy ux uy :: real
  assumes "ux * ux + uy * uy = 1"
  shows "(vx - 2 * ux * (vx * ux + vy * uy)) * (vx - 2 * ux * (vx * ux + vy * uy))
       + (vy - 2 * uy * (vx * ux + vy * uy)) * (vy - 2 * uy * (vx * ux + vy * uy))
       = vx * vx + vy * vy"
proof -
  let ?dp = "vx * ux + vy * uy"
  have "(vx - 2 * ux * ?dp) * (vx - 2 * ux * ?dp) + (vy - 2 * uy * ?dp) * (vy - 2 * uy * ?dp)
        = vx * vx + vy * vy - 4 * ?dp * ?dp + 4 * ?dp * ?dp * (ux * ux + uy * uy)"
    by (simp add: algebra_simps)
  then show ?thesis by (simp add: assms)
qed

lemma unit_of_scaled:
  fixes a b l q :: real
  assumes "l * l = q" and "0 < q" and "a * a + b * b = q"
  shows "(a / l) * (a / l) + (b / l) * (b / l) = 1"
proof -
  have "(a / l) * (a / l) + (b / l) * (b / l) = (a * a + b * b) / (l * l)"
    by (simp add: add_divide_distrib)
  then show ?thesis using assms by simp
qed

lemma length_squared_scaled:
  assumes "0 < length_squared n"
  shows "length_squared (fst n / sqrt (length_squared n), snd n / sqrt (length_squared n)) = 1"
proof -
  have l: "sqrt (length_squared n) * sqrt (length_squared n) = length_squared n"
    using assms by simp
  have q: "fst n * fst n + snd n * snd n = length_squared n"
    by (simp add: length_squared_def)
  from unit_of_scaled [OF l assms q]
  show ?thesis
    by (simp add: length_squared_def [of "(x, y)" for x y])
qed

lemma reflect_length_squared:
  assumes "reflect v n = Some v'"
  shows "length_squared v' = length_squared v"
proof -
  define u where "u = (if length_squared n \<noteq> 1
                       then (fst n / sqrt (length_squared n), snd n / sqrt (length_squared n))
                       else n)"
  have big: "\<not> length_squared n < 1 / 1000000"
    using assms by (auto simp: reflect_def Let_def split: if_splits)
  have v': "v' = (fst v - 2 * fst u * vdot v u, snd v - 2 * snd u * vdot v u)"
    using assms big by (simp add: reflect_def Let_def u_def)
  have "length_squared u = 1"
    using big length_squared_scaled [of n] by (simp add: u_def)
  then have "fst u * fst u + snd u * snd u = 1"
    by (simp add: length_squared_def)
  from mirror_length [OF this, of "fst v" "snd v"]
  show ?thesis
    by (simp add: v' length_squared_def vdot_def)
qed

lemma reflect_unit:
  assumes "length_squared n = 1"
  shows "reflect v n = Some (vsub v (smul n (2 * vdot v n)))"
  using assms by (simp add: reflect_def Let_def vsub_def smul_def mult_ac)

text \<open>
  C9. On a collision the code reflects a velocity \<open>v\<close> whose squared length exceeds
  \<open>epsilon\<close>. For every unit normal \<open>n\<close> the reflected velocity is \<open>v - 2 (v \<cdot> n) n\<close>, and
  its length is the length of \<open>v\<close>. Numbers are reals here, so the two speeds are equal,
  not merely close.
\<close>

theorem reflection_preserves_speed:
  assumes "length_squared n = 1" and "length_squared (vel d) > epsilon"
  shows "reflect_velocity n d = Some (d\<lparr>vel := vsub (vel d) (smul n (2 * vdot (vel d) n))\<rparr>)
       \<and> vlength (vsub (vel d) (smul n (2 * vdot (vel d) n))) = vlength (vel d)"
proof -
  let ?v' = "vsub (vel d) (smul n (2 * vdot (vel d) n))"
  have r: "reflect (vel d) n = Some ?v'"
    by (rule reflect_unit [OF assms(1)])
  have "vlength ?v' = vlength (vel d)"
    using reflect_length_squared [OF r] by (simp add: vlength_def)
  then show ?thesis
    using assms(2) r by (simp add: reflect_velocity_def)
qed

theorem reflection_preserves_speed_witness:
  "length_squared (0, 1) = 1 \<and> length_squared (vel marked_dot) > epsilon
   \<and> reflect_velocity (0, 1) marked_dot = Some (marked_dot\<lparr>vel := (30, - 40)\<rparr>)
   \<and> vlength (30, - 40) = vlength (vel marked_dot)"
proof -
  have h1: "length_squared (0, 1) = 1" by (simp add: length_squared_def)
  have h2: "length_squared (vel marked_dot) > epsilon"
    by (simp add: length_squared_def marked_dot_def Dot_def epsilon_def)
  have v: "vsub (vel marked_dot) (smul (0, 1) (2 * vdot (vel marked_dot) (0, 1))) = (30, - 40)"
    by (simp add: marked_dot_def Dot_def vsub_def smul_def vdot_def)
  show ?thesis
    using reflection_preserves_speed [OF h1 h2] h1 h2 by (simp add: v)
qed

section \<open>The irregular polygon\<close>

lemma max_extent_radius_eq: "max_extent_radius = 486"
  by (simp add: max_extent_radius_def WIDTH_def HEIGHT_def BOUNDARY_FACTOR_def)

lemma base_r_eq: "base_r = 2673 / 10"
  by (simp add: base_r_def base_r_factor_def max_extent_radius_eq)

lemma Max_image_max:
  fixes f :: "nat \<Rightarrow> real"
  assumes "finite I" and "I \<noteq> {}"
  shows "Max ((\<lambda>i. max t (f i)) ` I) = max t (Max (f ` I))"
proof -
  have "mono (max t)"
    by (rule monoI) (simp add: max.coboundedI2)
  from mono_Max_commute [OF this, of "f ` I"] assms
  show ?thesis by (simp add: image_image)
qed

lemma Max_image_divide:
  fixes f :: "nat \<Rightarrow> real"
  assumes "finite I" and "I \<noteq> {}" and "0 < r"
  shows "Max ((\<lambda>i. f i / r) ` I) = Max (f ` I) / r"
proof -
  have "mono (\<lambda>x. x / r)"
    using assms(3) by (intro monoI) (simp add: divide_right_mono)
  from mono_Max_commute [OF this, of "f ` I"] assms
  show ?thesis by (simp add: image_image)
qed

text \<open>The radius of the first loop, before the division by the extent.\<close>

lemma generated_radii_factors_set:
  "set (generated_radii_factors noise2)
     = (\<lambda>i. max (base_r * (1 / 10)) (base_r + amplitude * ameba_noise_val noise2 i)
              / real_of_int max_extent_radius) ` {0..<num_vertices_ameba}"
  by (simp add: generated_radii_factors_def Let_def)

lemma scale_factor_eq:
  "scale_factor noise2
     = real_of_int max_extent_radius
         / Max ((\<lambda>i. max (base_r * (1 / 10)) (base_r + amplitude * ameba_noise_val noise2 i))
                  ` {0..<num_vertices_ameba})"
proof -
  let ?I = "{0..<num_vertices_ameba}"
  let ?c = "\<lambda>i. max (base_r * (1 / 10)) (base_r + amplitude * ameba_noise_val noise2 i)"
  have I: "finite ?I" "?I \<noteq> {}" by (simp_all add: num_vertices_ameba_def)
  have ne: "generated_radii_factors noise2 \<noteq> []"
    by (simp add: generated_radii_factors_def num_vertices_ameba_def)
  have m: "Max (set (generated_radii_factors noise2)) = Max (?c ` ?I) / real_of_int max_extent_radius"
    unfolding generated_radii_factors_set
    by (rule Max_image_divide [OF I]) (simp add: max_extent_radius_eq)
  have "base_r * (1 / 10) \<le> Max (?c ` ?I)"
    using Max_image_max [OF I, of "base_r * (1 / 10)"] by simp
  then have low: "2673 / 100 \<le> Max (?c ` ?I)"
    by (simp add: base_r_eq)
  then have "\<not> Max (?c ` ?I) / real_of_int max_extent_radius \<le> 1 / 1000000"
    by (simp add: max_extent_radius_eq)
  then show ?thesis
    using ne by (simp add: scale_factor_def Let_def m)
qed

lemma rescale_same:
  fixes b R c m1 m2 mx :: real
  assumes "0 < b" and "0 < R"
      and "m1 = max (b * (1 / 10)) mx" and "m2 = max (b * (2 / 10)) mx"
      and "b * (2 / 10) \<le> c"
  shows "min (c * (R / m1)) R = min (c * (R / m2)) R"
proof (cases "b * (2 / 10) \<le> mx")
  case True
  then have "m1 = m2" using assms(1,3,4) by (simp add: max_def)
  then show ?thesis by simp
next
  case False
  then have m2: "m2 = b * (2 / 10)" using assms(4) by (simp add: max_def)
  have m1: "0 < m1" "m1 \<le> b * (2 / 10)"
    using False assms(1,3) by (simp_all add: max_def)
  have big: "R \<le> c * (R / m)" if "0 < m" "m \<le> c" for m
  proof -
    have "1 \<le> c / m" using that by (simp add: le_divide_eq)
    then have "R * 1 \<le> R * (c / m)"
      using assms(2) by (intro mult_left_mono) simp_all
    then show ?thesis by (simp add: mult.commute)
  qed
  have "R \<le> c * (R / m1)"
    using m1 assms(5) by (intro big) simp_all
  moreover have "R \<le> c * (R / m2)"
    using assms(1,5) by (intro big) (simp_all add: m2)
  ultimately show ?thesis by (simp add: min_def)
qed

lemma ameba_radius_eq_spec:
  "ameba_radius noise2 i = spec_blob_radius noise2 i"
proof -
  let ?I = "{0..<num_vertices_ameba}"
  let ?x = "\<lambda>i. base_r + amplitude * ameba_noise_val noise2 i"
  let ?c1 = "\<lambda>i. max (base_r * (1 / 10)) (?x i)"
  let ?c2 = "\<lambda>i. max (base_r * (2 / 10)) (?x i)"
  let ?R = "real_of_int max_extent_radius"
  have I: "finite ?I" "?I \<noteq> {}" by (simp_all add: num_vertices_ameba_def)
  have R: "0 < ?R" by (simp add: max_extent_radius_eq)
  have b: "0 < base_r" by (simp add: base_r_eq)
  have M1: "Max (?c1 ` ?I) = max (base_r * (1 / 10)) (Max (?x ` ?I))"
    by (rule Max_image_max [OF I])
  have M2: "Max (?c2 ` ?I) = max (base_r * (2 / 10)) (Max (?x ` ?I))"
    by (rule Max_image_max [OF I])
  have F2: "Max (spec_generated_factor noise2 ` ?I) = Max (?c2 ` ?I) / ?R"
    unfolding spec_generated_factor_def spec_generated_radius_def
    by (rule Max_image_divide [OF I R])
  have code: "ameba_radius noise2 i = min (?c2 i * (?R / Max (?c1 ` ?I))) ?R"
    by (simp only: ameba_radius_def Let_def scale_factor_eq)
  have spec: "spec_blob_radius noise2 i = min (?c2 i * (?R / Max (?c2 ` ?I))) ?R"
    by (simp only: spec_blob_radius_def spec_generated_radius_def F2 divide_divide_eq_right
        mult_1)
  have c2: "base_r * (2 / 10) \<le> ?c2 i" by (rule max.cobounded1)
  show ?thesis
    unfolding code spec by (rule rescale_same [OF b R M1 M2 c2])
qed

lemma spec_blob_radius_le: "spec_blob_radius noise2 i \<le> real_of_int max_extent_radius"
  by (simp add: spec_blob_radius_def)

lemma spec_blob_radius_attained:
  "\<exists>k \<in> {0..<num_vertices_ameba}. spec_blob_radius noise2 k = real_of_int max_extent_radius"
proof -
  let ?I = "{0..<num_vertices_ameba}"
  let ?R = "real_of_int max_extent_radius"
  have I: "finite (spec_generated_factor noise2 ` ?I)" "spec_generated_factor noise2 ` ?I \<noteq> {}"
    by (simp_all add: num_vertices_ameba_def)
  from Max_in [OF I] obtain k where k: "k \<in> ?I"
      "Max (spec_generated_factor noise2 ` ?I) = spec_generated_factor noise2 k"
    by auto
  have b: "0 < base_r" by (simp add: base_r_eq)
  have "base_r * (2 / 10) \<le> spec_generated_radius noise2 k"
    unfolding spec_generated_radius_def by (rule max.cobounded1)
  then have pos: "0 < spec_generated_radius noise2 k" using b by simp
  have "spec_generated_radius noise2 k * (1 / (spec_generated_radius noise2 k / ?R)) = ?R"
    using pos by (simp add: max_extent_radius_eq)
  then have "spec_blob_radius noise2 k = ?R"
    unfolding spec_blob_radius_def k(2) spec_generated_factor_def by simp
  with k(1) show ?thesis by blast
qed

text \<open>
  C7. For every noise function and each of the 360 angles, the radius the code gives the
  vertex is the radius of the specification: the noise-perturbed base radius clamped
  below at \<open>base_r * 0.2\<close>, rescaled by one over the largest generated factor and clamped
  to the extent. The largest of the 360 radii is the target extent. (The first loop of
  the code clamps at \<open>base_r * 0.1\<close>; the resulting radii are the same.)
\<close>

theorem ameba_radii_refine_spec:
  "map (ameba_radius noise2) [0..<num_vertices_ameba]
     = map (spec_blob_radius noise2) [0..<num_vertices_ameba]
   \<and> length (ameba_vertices noise2) = 360
   \<and> Max (ameba_radius noise2 ` {0..<num_vertices_ameba}) = real_of_int max_extent_radius"
proof -
  let ?I = "{0..<num_vertices_ameba}"
  have e: "ameba_radius noise2 = spec_blob_radius noise2"
    by (rule ext) (rule ameba_radius_eq_spec)
  have I: "finite (spec_blob_radius noise2 ` ?I)" by simp
  have "Max (spec_blob_radius noise2 ` ?I) = real_of_int max_extent_radius"
  proof (rule Max_eqI [OF I])
    show "\<And>y. y \<in> spec_blob_radius noise2 ` ?I \<Longrightarrow> y \<le> real_of_int max_extent_radius"
      using spec_blob_radius_le by auto
    show "real_of_int max_extent_radius \<in> spec_blob_radius noise2 ` ?I"
      using spec_blob_radius_attained [of noise2] by (metis imageI)
  qed
  then show ?thesis
    by (simp add: e ameba_vertices_def num_vertices_ameba_def)
qed

section \<open>The predictive check\<close>

lemmas vec_defs = vadd_def vsub_def vneg_def smul_def vdot_def length_squared_def vlength_def

lemmas collision_cfg_defs =
  BOUNDARY_THICKNESS_def DOT_RADIUS_def epsilon_def COLLISION_BOUNDS_INWARD_OFFSET_def

text \<open>One pass of the loop, in terms of the named quantities.\<close>

lemma sweep_segment_eq:
  "sweep_segment d off sg st =
     (if edge_qualifies d off sg \<and> below_min_collision_dt (time_to_hit_line d off sg) st
      then Some (time_to_hit_line d off sg, sg, collision_point_on_line d off sg)
      else st)"
proof -
  obtain v_start v_end seg_vec seg_len_sq n where sg: "sg = (v_start, v_end, seg_vec, seg_len_sq, n)"
    by (cases sg)
  have pos: "epsilon < x \<Longrightarrow> \<not> \<bar>x\<bar> < epsilon" for x :: real
    by (simp add: epsilon_def)
  show ?thesis
    unfolding sg
    by (auto simp: sweep_segment_def edge_qualifies_def moving_towards_def
        projects_onto_segment_def collision_point_on_line_def time_to_hit_line_def Let_def
        dest: pos)
qed

text \<open>The state of the loop after a run over \<open>segs\<close> from the state \<open>st\<close>.\<close>

lemma sweep_fold:
  "case fold (sweep_segment d off) segs st of
     None \<Rightarrow> st = None \<and> (\<forall>s \<in> set segs. \<not> edge_qualifies d off s)
   | Some (t, sg, p) \<Rightarrow>
       (\<forall>s \<in> set segs. edge_qualifies d off s \<longrightarrow> t \<le> time_to_hit_line d off s)
       \<and> (\<forall>m sg' p'. st = Some (m, sg', p') \<longrightarrow> t \<le> m)
       \<and> (st = Some (t, sg, p)
          \<or> (sg \<in> set segs \<and> edge_qualifies d off sg \<and> t = time_to_hit_line d off sg
              \<and> p = collision_point_on_line d off sg \<and> below_min_collision_dt t st))"
proof (induction segs arbitrary: st)
  case Nil
  show ?case by (cases st) auto
next
  case (Cons x xs)
  let ?st' = "sweep_segment d off x st"
  have f: "fold (sweep_segment d off) (x # xs) st = fold (sweep_segment d off) xs ?st'"
    by simp
  show ?case
  proof (cases "edge_qualifies d off x \<and> below_min_collision_dt (time_to_hit_line d off x) st")
    case True
    then have st': "?st' = Some (time_to_hit_line d off x, x, collision_point_on_line d off x)"
      by (simp add: sweep_segment_eq)
    from Cons.IH [of ?st'] True show ?thesis
      unfolding f st'
      by (cases st) (auto simp: below_min_collision_dt_def split: option.splits)
  next
    case False
    then have st': "?st' = st"
      by (auto simp: sweep_segment_eq)
    from Cons.IH [of st] False show ?thesis
      unfolding f st'
      by (cases st) (auto simp: below_min_collision_dt_def split: option.splits)
  qed
qed

text \<open>The segments of the square are the ones the code builds from its vertices.\<close>

lemma polygon_segments_square: "polygon_segments square_vertices = Some square_segments"
  by (simp add: polygon_segments_def segment_at_def square_vertices_def square_segments_def
      bottom_edge_def normalize_def rotate_neg90_def vec_defs Let_def upt_rec nth_Cons')

lemma sweep_grazing_dot:
  "predictive_sweep grazing_dot (COLLISION_BOUNDS_INWARD_OFFSET ''Square'') square_segments
     = Some (1 / 28, bottom_edge, (398 / 7, 203 / 2))"
  by (simp add: predictive_sweep_def sweep_segment_def square_segments_def bottom_edge_def
      grazing_dot_def Dot_def find_closest_point_on_segment_def below_min_collision_dt_def
      vec_defs collision_cfg_defs Let_def)




lemma collide_grazing_dot:
  "handle_collisions square_sim grazing_dot (1 / 60) steady_world
     = Some (grazing_dot\<lparr>pos := (398 / 7, 97499999 / 1000000), vel := (192, - 56),
                          needs_split := True, split_timer_start := 100,
                          last_collision_normal := Some (0, - 1)\<rparr>,
             True, steady_world\<lparr>clock_reads := 1\<rparr>)"
  by (simp add: handle_collisions_def predictive_sweep_def sweep_segment_def square_segments_def
      bottom_edge_def grazing_dot_def Dot_def find_closest_point_on_segment_def
      below_min_collision_dt_def vec_defs collision_cfg_defs Let_def square_sim_def
      resolve_predictive_def reflect_velocity_def reflect_def mark_for_split_def get_ticks_def
      normalize_def steady_world_def)





section \<open>The collision engine\<close>

lemma normalize_unit:
  assumes "normalize a = Some u"
  shows "length_squared u = 1"
proof -
  have nz: "sqrt (length_squared a) \<noteq> 0"
    using assms by (auto simp: normalize_def vlength_def Let_def split: if_splits)
  have ge: "0 \<le> length_squared a"
    by (simp add: length_squared_def)
  from nz ge have pos: "0 < length_squared a"
    by (cases "length_squared a = 0") auto
  have "u = (fst a / sqrt (length_squared a), snd a / sqrt (length_squared a))"
    using assms nz by (simp add: normalize_def vlength_def Let_def)
  then show ?thesis
    using length_squared_scaled [OF pos] by simp
qed

lemma normalize_total:
  assumes "0 < length_squared a"
  shows "\<exists>u. normalize a = Some u \<and> length_squared u = 1"
proof -
  have "vlength a \<noteq> 0" using assms by (simp add: vlength_def)
  then obtain u where "normalize a = Some u"
    by (simp add: normalize_def Let_def)
  with normalize_unit [OF this] show ?thesis by blast
qed

lemma length_squared_vneg [simp]: "length_squared (vneg a) = length_squared a"
  by (simp add: length_squared_def vneg_def)

text \<open>What \<open>mark_for_split\<close> returns.\<close>

lemma mark_for_split_spec:
  "\<exists>d' w'. mark_for_split m d w = Some (d', w')
      \<and> needs_split d' \<and> pos d' = pos d \<and> vel d' = vel d \<and> color d' = color d
      \<and> (needs_split d \<longrightarrow> d' = d \<and> w' = w)
      \<and> (\<not> needs_split d \<longrightarrow> (\<exists>u. last_collision_normal d' = Some u \<and> length_squared u = 1))"
proof (cases "needs_split d")
  case True
  then show ?thesis by (simp add: mark_for_split_def)
next
  case False
  show ?thesis
  proof (cases "length_squared m > 1 / 1000000000")
    case True
    then have "0 < length_squared m" by simp
    from normalize_total [OF this] obtain u where "normalize m = Some u" "length_squared u = 1"
      by blast
    with False True show ?thesis
      by (cases u) (simp add: mark_for_split_def get_ticks_def Let_def)
  next
    case big: False
    with False show ?thesis
      by (simp add: mark_for_split_def get_ticks_def Let_def length_squared_def)
  qed
qed

lemma circle_collision_cases:
  "circle_collision radius off d dt w = Some (d, False, w)
   \<or> (\<exists>p n m. length_squared n = 1 \<and> circle_collision radius off d dt w = collide_at p n m d w)"
proof -
  let ?cd = "max 0 (radius - BOUNDARY_THICKNESS / 2 - off - DOT_RADIUS)"
  let ?vec = "vsub center_pos (vadd (pos d) (smul (vel d) dt))"
  let ?dist = "if length_squared ?vec > 0 then sqrt (length_squared ?vec) else 0"
  show ?thesis
  proof (cases "length_squared ?vec \<ge> ?cd * ?cd - epsilon")
    case False
    then show ?thesis by (simp add: circle_collision_def Let_def)
  next
    case True
    obtain nc where nc: "(if ?dist > epsilon then normalize ?vec else Some (0, 1)) = Some nc"
        "length_squared nc = 1"
    proof (cases "?dist > epsilon")
      case far: True
      then have "0 < length_squared ?vec"
        by (auto simp: epsilon_def split: if_splits)
      from normalize_total [OF this] far that show ?thesis by auto
    next
      case near: False
      then show ?thesis using that [of "(0, 1)"] by (simp add: length_squared_def)
    qed
    have "circle_collision radius off d dt w
            = collide_at (vsub center_pos (smul nc (?cd - epsilon))) (vneg nc) nc d w"
      using True nc(1) by (simp add: circle_collision_def Let_def)
    moreover have "length_squared (vneg nc) = 1" using nc(2) by simp
    ultimately show ?thesis by blast
  qed
qed

lemma resolve_predictive_eq:
  "\<exists>p. resolve_predictive d off (v_start, v_end, seg_vec, seg_len_sq, n) q w
         = collide_at p n (vneg n) d w"
proof (cases "vdot (vsub q v_start) n - BOUNDARY_THICKNESS / 2 - off - DOT_RADIUS > - epsilon")
  case True
  then show ?thesis
    by (intro exI [of _ "vsub q (smul n (vdot (vsub q v_start) n - BOUNDARY_THICKNESS / 2
                                          - off - DOT_RADIUS + epsilon))"])
       (simp add: resolve_predictive_def Let_def)
next
  case False
  then show ?thesis
    by (intro exI [of _ q]) (simp add: resolve_predictive_def Let_def)
qed

lemma safety_fold_mem:
  "fold (safety_segment np off) segs st = Some (ov, sg) \<Longrightarrow> sg \<in> set segs \<or> st = Some (ov, sg)"
proof (induction segs arbitrary: st)
  case Nil
  then show ?case by simp
next
  case (Cons x xs)
  from Cons.IH [of "safety_segment np off x st"] Cons.prems
  have "sg \<in> set xs \<or> safety_segment np off x st = Some (ov, sg)" by simp
  then show ?case
    by (auto simp: safety_segment_def Let_def split: prod.splits if_splits)
qed

lemma safety_net_cases:
  "safety_net d off segs dt w = Some (d, False, w)
   \<or> (\<exists>p v_start v_end seg_vec seg_len_sq n.
         (v_start, v_end, seg_vec, seg_len_sq, n) \<in> set segs
         \<and> safety_net d off segs dt w = collide_at p n (vneg n) d w)"
proof (cases "fold (safety_segment (vadd (pos d) (smul (vel d) dt)) off) segs None")
  case None
  then show ?thesis by (simp add: safety_net_def Let_def)
next
  case (Some r)
  obtain ov v_start v_end seg_vec seg_len_sq n
    where r: "r = (ov, (v_start, v_end, seg_vec, seg_len_sq, n))"
    by (cases r) auto
  from safety_fold_mem [OF Some [unfolded r]]
  have mem: "(v_start, v_end, seg_vec, seg_len_sq, n) \<in> set segs" by simp
  show ?thesis
  proof (cases "ov > epsilon \<and> vdot (vel d) n > epsilon")
    case True
    then have "safety_net d off segs dt w
                = collide_at (vsub (vadd (pos d) (smul (vel d) dt)) (smul n (ov + epsilon)))
                    n (vneg n) d w"
      using Some r by (simp add: safety_net_def Let_def)
    with mem show ?thesis by blast
  next
    case False
    then have "safety_net d off segs dt w = Some (d, False, w)"
      using Some r by (auto simp: safety_net_def Let_def)
    then show ?thesis by simp
  qed
qed

lemma those_Some_mem:
  "those ys = Some xs \<Longrightarrow> x \<in> set xs \<Longrightarrow> Some x \<in> set ys"
proof (induction ys arbitrary: xs)
  case Nil
  then show ?case by simp
next
  case (Cons y ys)
  then show ?case
    by (cases y; cases "those ys") auto
qed

lemma segment_at_unit:
  assumes "segment_at verts i = Some l"
      and "(v_start, v_end, seg_vec, seg_len_sq, n) \<in> set l"
  shows "length_squared n = 1"
  using assms
  by (auto simp: segment_at_def Let_def bind_eq_Some_conv split: if_splits
      dest: normalize_unit)

text \<open>The shapes that \<^verbatim>\<open>define_shapes\<close> builds from vertices are well-formed.\<close>

lemma polygon_shape_unit_normals:
  assumes "polygon_shape verts = Some sh"
  shows "unit_normals sh"
proof -
  from assms obtain ls where ls: "those (map (segment_at verts) [0..<length verts]) = Some ls"
      "sh = Polygon verts (concat ls)"
    by (auto simp: polygon_shape_def polygon_segments_def)
  have "case sg of (v_start, v_end, seg_vec, seg_len_sq, n) \<Rightarrow> length_squared n = 1"
    if "sg \<in> set (concat ls)" for sg
  proof -
    obtain v_start v_end seg_vec seg_len_sq n
      where sg: "sg = (v_start, v_end, seg_vec, seg_len_sq, n)"
      by (cases sg)
    from that obtain l where l: "l \<in> set ls" "(v_start, v_end, seg_vec, seg_len_sq, n) \<in> set l"
      unfolding sg by auto
    from those_Some_mem [OF ls(1) l(1)] obtain i where "segment_at verts i = Some l"
      by auto
    from segment_at_unit [OF this l(2)] show ?thesis
      by (simp add: sg)
  qed
  then show ?thesis
    unfolding ls(2) unit_normals_def list_all_iff by simp
qed

lemma unit_normals_square: "unit_normals (current_shape_data square_sim)"
  by (simp add: unit_normals_def square_sim_def square_segments_def bottom_edge_def
      length_squared_def)

lemma collide_inner_dot:
  "handle_collisions square_sim inner_dot (1 / 60) steady_world
     = Some (inner_dot, False, steady_world)"
  by (simp add: handle_collisions_def predictive_sweep_def sweep_segment_def square_segments_def
      bottom_edge_def inner_dot_def Dot_def find_closest_point_on_segment_def
      below_min_collision_dt_def above_max_overlap_def vec_defs collision_cfg_defs Let_def
      square_sim_def safety_net_def safety_segment_def)

section \<open>The update pass\<close>

lemma handle_collisions_cases_any:
  "handle_collisions s d dt w = Some (d, False, w)
   \<or> (\<exists>p n m. handle_collisions s d dt w = collide_at p n m d w)"
proof (cases "current_shape_data s")
  case (Circle radius)
  then have h: "handle_collisions s d dt w
                  = circle_collision radius (COLLISION_BOUNDS_INWARD_OFFSET (current_shape_name s))
                      d dt w"
    by (simp add: handle_collisions_def)
  from circle_collision_cases
         [of radius "COLLISION_BOUNDS_INWARD_OFFSET (current_shape_name s)" d dt w]
  show ?thesis
    unfolding h by blast
next
  case (Polygon verts segs)
  let ?off = "COLLISION_BOUNDS_INWARD_OFFSET (current_shape_name s)"
  show ?thesis
  proof (cases "predictive_sweep d ?off segs")
    case None
    then have h: "handle_collisions s d dt w = safety_net d ?off segs dt w"
      using Polygon by (simp add: handle_collisions_def)
    from safety_net_cases [of d ?off segs dt w] show ?thesis
      unfolding h by blast
  next
    case (Some r)
    obtain t v_start v_end seg_vec seg_len_sq n q
      where r: "r = (t, (v_start, v_end, seg_vec, seg_len_sq, n), q)"
      by (cases r) auto
    have h: "handle_collisions s d dt w
               = resolve_predictive d ?off (v_start, v_end, seg_vec, seg_len_sq, n) q w"
      using Polygon Some r by (simp add: handle_collisions_def)
    from resolve_predictive_eq [of d ?off v_start v_end seg_vec seg_len_sq n q w]
    show ?thesis unfolding h by blast
  qed
qed

lemma reflect_velocity_fields:
  assumes "reflect_velocity n d = Some d2"
  shows "\<exists>v. d2 = d\<lparr>vel := v\<rparr>"
proof (cases "length_squared (vel d) > epsilon")
  case True
  with assms show ?thesis by (auto simp: reflect_velocity_def)
next
  case False
  with assms have "d2 = d\<lparr>vel := vel d\<rparr>" by (simp add: reflect_velocity_def)
  then show ?thesis by blast
qed

lemma collide_at_fields:
  assumes "collide_at p n m d w = Some (d3, c, w')"
  shows "c \<and> needs_split d3 \<and> pos d3 = p \<and> color d3 = color d
       \<and> (needs_split d \<longrightarrow> last_collision_normal d3 = last_collision_normal d
                              \<and> split_timer_start d3 = split_timer_start d)
       \<and> (\<not> needs_split d \<longrightarrow> (\<exists>u. last_collision_normal d3 = Some u \<and> length_squared u = 1))"
proof -
  from assms obtain d2 where d2: "reflect_velocity n (d\<lparr>pos := p\<rparr>) = Some d2"
      and rest: "mark_for_split m d2 w \<bind> (\<lambda>(d3, w'). Some (d3, True, w')) = Some (d3, c, w')"
    by (auto simp: bind_eq_Some_conv)
  from reflect_velocity_fields [OF d2] obtain v where v: "d2 = d\<lparr>pos := p, vel := v\<rparr>"
    by auto
  from mark_for_split_spec [of m d2 w]
  obtain e w2 where m: "mark_for_split m d2 w = Some (e, w2)"
      "needs_split e" "pos e = pos d2" "color e = color d2"
      "needs_split d2 \<longrightarrow> e = d2 \<and> w2 = w"
      "\<not> needs_split d2 \<longrightarrow> (\<exists>u. last_collision_normal e = Some u \<and> length_squared u = 1)"
    by blast
  from rest m(1) have e: "d3 = e" "c" by auto
  show ?thesis
    using m(2-6) unfolding e(1) v using e(2) by auto
qed

text \<open>What the collision engine leaves of the split state of a dot, on any shape.\<close>

lemma handle_collisions_fields:
  assumes "handle_collisions s d dt w = Some (d1, c, w1)"
  shows "(\<not> c \<longrightarrow> d1 = d \<and> w1 = w)
       \<and> (c \<longrightarrow> needs_split d1)
       \<and> (needs_split d \<longrightarrow> needs_split d1
                              \<and> last_collision_normal d1 = last_collision_normal d
                              \<and> split_timer_start d1 = split_timer_start d)
       \<and> (\<not> needs_split d \<and> c
            \<longrightarrow> (\<exists>u. last_collision_normal d1 = Some u \<and> length_squared u = 1))"
proof -
  from handle_collisions_cases_any [of s d dt w]
  consider "handle_collisions s d dt w = Some (d, False, w)"
    | p n m where "handle_collisions s d dt w = collide_at p n m d w"
    by blast
  then show ?thesis
  proof cases
    case 1
    with assms show ?thesis by simp
  next
    case 2
    with assms have "collide_at p n m d w = Some (d1, c, w1)" by simp
    from collide_at_fields [OF this] show ?thesis by auto
  qed
qed

lemma collide_or_move_fields:
  assumes "collide_or_move s dt d w = Some (d1, w1)"
  shows "(needs_split d \<longrightarrow> needs_split d1
                              \<and> last_collision_normal d1 = last_collision_normal d
                              \<and> split_timer_start d1 = split_timer_start d)
       \<and> (\<not> needs_split d
            \<longrightarrow> (needs_split d1 \<and> (\<exists>u. last_collision_normal d1 = Some u \<and> length_squared u = 1))
                \<or> (\<not> needs_split d1 \<and> last_collision_normal d1 = last_collision_normal d))"
proof -
  from assms obtain e c where h: "handle_collisions s d dt w = Some (e, c, w1)"
      and d1: "d1 = (if \<not> c then move dt e else e)"
    by (auto simp: collide_or_move_def bind_eq_Some_conv)
  from handle_collisions_fields [OF h] show ?thesis
    unfolding d1 by (cases c) (auto simp: move_def)
qed

lemma collide_or_move_normal_ok:
  assumes "collide_or_move s dt d w = Some (d1, w1)" and "normal_ok d"
  shows "normal_ok d1"
  using collide_or_move_fields [OF assms(1)] assms(2)
  by (cases "needs_split d") (auto simp: normal_ok_def)

lemma collide_or_move_keeps_normal:
  assumes "collide_or_move s dt d w = Some (d1, w1)" and "last_collision_normal d \<noteq> None"
  shows "last_collision_normal d1 \<noteq> None"
  using collide_or_move_fields [OF assms(1)] assms(2)
  by (cases "needs_split d") auto

lemma split_result:
  assumes "split d w = Some (parent, new_dots, w')"
  shows "parent = d\<lparr>needs_split := False, last_collision_normal := None\<rparr>
       \<and> (\<exists>c1 c2. new_dots = [c1, c2]
              \<and> \<not> needs_split c1 \<and> last_collision_normal c1 = None
              \<and> \<not> needs_split c2 \<and> last_collision_normal c2 = None)"
proof -
  obtain normal where "normal_for_split d (pos d) = Some normal"
    using split_Some_normal [OF assms] by blast
  from split_spec [OF this, of w] assms show ?thesis by auto
qed

text \<open>The three ways a pass of the loop can end.\<close>

lemma update_dot_cases:
  assumes "update_dot s dt d (kept, to_add, to_remove, w) = Some (kept', to_add', to_remove', w')"
  shows "\<exists>d1 w1. collide_or_move s dt d w = Some (d1, w1)
      \<and> ((fst (should_split d1 w1)
            \<and> int (length (dots s)) + int (length to_add) - int (length to_remove) < dot_limit s
            \<and> (\<exists>parent c1 c2.
                  split d1 (snd (should_split d1 w1)) = Some (parent, [c1, c2], w')
                  \<and> kept' = kept \<and> to_add' = to_add @ [c1, c2]
                  \<and> to_remove' = to_remove @ [parent]))
         \<or> (fst (should_split d1 w1)
            \<and> \<not> int (length (dots s)) + int (length to_add) - int (length to_remove) < dot_limit s
            \<and> kept' = kept @ [d1\<lparr>needs_split := False\<rparr>] \<and> to_add' = to_add
            \<and> to_remove' = to_remove \<and> w' = snd (should_split d1 w1))
         \<or> (\<not> fst (should_split d1 w1)
            \<and> kept' = kept @ [d1] \<and> to_add' = to_add \<and> to_remove' = to_remove
            \<and> w' = snd (should_split d1 w1)))"
proof -
  from assms obtain d1 w1 where cm: "collide_or_move s dt d w = Some (d1, w1)"
    by (cases "collide_or_move s dt d w") (auto simp: update_dot_def)
  obtain due w2 where ss: "should_split d1 w1 = (due, w2)"
    by (cases "should_split d1 w1")
  let ?room = "int (length (dots s)) + int (length to_add) - int (length to_remove) < dot_limit s"
  show ?thesis
  proof (cases due)
    case False
    with assms cm ss show ?thesis
      by (simp add: update_dot_def)
  next
    case True
    show ?thesis
    proof (cases ?room)
      case False
      with assms cm ss True show ?thesis
        by (simp add: update_dot_def)
    next
      case room: True
      with assms cm ss True
      obtain parent new_splits where sp: "split d1 w2 = Some (parent, new_splits, w')"
          "kept' = kept" "to_add' = to_add @ new_splits" "to_remove' = to_remove @ [parent]"
        by (auto simp: update_dot_def bind_eq_Some_conv)
      from split_result [OF sp(1)] obtain c1 c2 where "new_splits = [c1, c2]"
        by blast
      with sp cm ss True room show ?thesis
        by simp
    qed
  qed
qed

text \<open>Counting: each split adds two dots and removes one, and needs room for one more.\<close>

lemma update_dot_count:
  assumes "update_dot s dt d (kept, to_add, to_remove, w) = Some (kept', to_add', to_remove', w')"
  shows "length kept' + length to_remove' = length kept + length to_remove + 1
       \<and> (int (length (dots s)) + int (length to_add) - int (length to_remove) \<le> dot_limit s
            \<longrightarrow> int (length (dots s)) + int (length to_add') - int (length to_remove')
                  \<le> dot_limit s)"
  using update_dot_cases [OF assms] by auto

lemma update_loop_count:
  assumes "update_loop s dt ds (kept, to_add, to_remove, w) = Some (kept', to_add', to_remove', w')"
  shows "length kept' + length to_remove' = length kept + length to_remove + length ds
       \<and> (int (length (dots s)) + int (length to_add) - int (length to_remove) \<le> dot_limit s
            \<longrightarrow> int (length (dots s)) + int (length to_add') - int (length to_remove')
                  \<le> dot_limit s)"
  using assms
proof (induction ds arbitrary: kept to_add to_remove w)
  case Nil
  then show ?case by simp
next
  case (Cons d ds)
  from Cons.prems obtain st where st: "update_dot s dt d (kept, to_add, to_remove, w) = Some st"
      and rest: "update_loop s dt ds st = Some (kept', to_add', to_remove', w')"
    by (auto split: option.splits)
  obtain k a r v where stv: "st = (k, a, r, v)" by (cases st)
  from update_dot_count [OF st [unfolded stv]] Cons.IH [OF rest [unfolded stv]]
  show ?case by auto
qed

text \<open>Marked dots keep a unit normal through a pass of the loop.\<close>

lemma update_dot_normal_ok:
  assumes "update_dot s dt d (kept, to_add, to_remove, w) = Some (kept', to_add', to_remove', w')"
      and "normal_ok d" and "\<forall>x \<in> set kept \<union> set to_add. normal_ok x"
  shows "\<forall>x \<in> set kept' \<union> set to_add'. normal_ok x"
proof -
  from update_dot_cases [OF assms(1)] obtain d1 w1
    where cm: "collide_or_move s dt d w = Some (d1, w1)"
      and cases: "(\<exists>parent c1 c2.
                  split d1 (snd (should_split d1 w1)) = Some (parent, [c1, c2], w')
                  \<and> kept' = kept \<and> to_add' = to_add @ [c1, c2])
         \<or> (kept' = kept @ [d1\<lparr>needs_split := False\<rparr>] \<and> to_add' = to_add)
         \<or> (kept' = kept @ [d1] \<and> to_add' = to_add)"
    by blast
  have ok1: "normal_ok d1"
    by (rule collide_or_move_normal_ok [OF cm assms(2)])
  have ok2: "normal_ok (d1\<lparr>needs_split := False\<rparr>)"
    by (simp add: normal_ok_def)
  from cases show ?thesis
  proof (elim disjE exE conjE)
    fix parent c1 c2
    assume sp: "split d1 (snd (should_split d1 w1)) = Some (parent, [c1, c2], w')"
      and e: "kept' = kept" "to_add' = to_add @ [c1, c2]"
    from split_result [OF sp] have "normal_ok c1" "normal_ok c2"
      by (auto simp: normal_ok_def)
    with assms(3) e show ?thesis by auto
  next
    assume "kept' = kept @ [d1\<lparr>needs_split := False\<rparr>]" "to_add' = to_add"
    with assms(3) ok2 show ?thesis by auto
  next
    assume "kept' = kept @ [d1]" "to_add' = to_add"
    with assms(3) ok1 show ?thesis by auto
  qed
qed

lemma update_loop_normal_ok:
  assumes "update_loop s dt ds (kept, to_add, to_remove, w) = Some (kept', to_add', to_remove', w')"
      and "\<forall>x \<in> set ds \<union> set kept \<union> set to_add. normal_ok x"
  shows "\<forall>x \<in> set kept' \<union> set to_add'. normal_ok x"
  using assms
proof (induction ds arbitrary: kept to_add to_remove w)
  case Nil
  then show ?case by simp
next
  case (Cons d ds)
  from Cons.prems(1) obtain st where st: "update_dot s dt d (kept, to_add, to_remove, w) = Some st"
      and rest: "update_loop s dt ds st = Some (kept', to_add', to_remove', w')"
    by (auto split: option.splits)
  obtain k a r v where stv: "st = (k, a, r, v)" by (cases st)
  have "\<forall>x \<in> set k \<union> set a. normal_ok x"
    using update_dot_normal_ok [OF st [unfolded stv]] Cons.prems(2) by simp
  with Cons.prems(2) have "\<forall>x \<in> set ds \<union> set k \<union> set a. normal_ok x" by auto
  from Cons.IH [OF rest [unfolded stv] this] show ?case .
qed

text \<open>An update pass of a simulation that is not paused.\<close>

lemma spawn_on_interval_fields:
  "dot_limit (fst (spawn_on_interval s t w)) = dot_limit s"
  "paused (fst (spawn_on_interval s t w)) = paused s"
  "limit_reached_paused (fst (spawn_on_interval s t w)) = limit_reached_paused s"
  by (simp_all add: spawn_on_interval_def Let_def case_prod_beta)

lemma spawn_on_interval_dots:
  "dots (fst (spawn_on_interval s t w)) = dots s
   \<or> (int (length (dots s)) < dot_limit s
      \<and> (\<exists>c. dots (fst (spawn_on_interval s t w)) = dots s @ [c] \<and> \<not> needs_split c
              \<and> last_collision_normal c = None))"
  using spawn_dot_dots [of s w]
  by (auto simp: spawn_on_interval_def Let_def case_prod_beta)

lemma update_running:
  assumes "update s dt w = Some (s', w')" and "\<not> paused s"
  shows "\<exists>s1 w2 kept to_add to_remove.
           dot_limit s1 = dot_limit s \<and> paused s1 = paused s
         \<and> limit_reached_paused s1 = limit_reached_paused s
         \<and> (dots s1 = dots s
            \<or> (int (length (dots s)) < dot_limit s
               \<and> (\<exists>c. dots s1 = dots s @ [c] \<and> \<not> needs_split c
                       \<and> last_collision_normal c = None)))
         \<and> update_loop s1 dt (dots s1) ([], [], [], w2) = Some (kept, to_add, to_remove, w')
         \<and> s' = limit_check (s1\<lparr>dots := kept @ to_add\<rparr>)"
proof -
  let ?sw = "spawn_on_interval s (fst (get_ticks w)) (snd (get_ticks w))"
  from assms obtain kept to_add to_remove
    where loop: "update_loop (fst ?sw) dt (dots (fst ?sw)) ([], [], [], snd ?sw)
                   = Some (kept, to_add, to_remove, w')"
      and s': "s' = limit_check ((fst ?sw)\<lparr>dots := kept @ to_add\<rparr>)"
    by (auto simp: update_def Let_def case_prod_beta bind_eq_Some_conv)
  from spawn_on_interval_fields [of s "fst (get_ticks w)" "snd (get_ticks w)"]
    spawn_on_interval_dots [of s "fst (get_ticks w)" "snd (get_ticks w)"] loop s'
  show ?thesis by blast
qed

lemma update_paused: "paused s \<Longrightarrow> update s dt w = Some (s, w)"
  by (simp add: update_def)

text \<open>The population after an update pass.\<close>

lemma update_count:
  assumes "update s dt w = Some (s', w')" and "int (length (dots s)) \<le> dot_limit s"
  shows "int (length (dots s')) \<le> dot_limit s'" and "dot_limit s' = dot_limit s"
proof -
  have "int (length (dots s')) \<le> dot_limit s' \<and> dot_limit s' = dot_limit s"
  proof (cases "paused s")
    case True
    with assms show ?thesis by (simp add: update_paused)
  next
    case False
    from update_running [OF assms(1) False]
    obtain s1 w2 kept to_add to_remove where
      f: "dot_limit s1 = dot_limit s"
      and d: "dots s1 = dots s \<or> (int (length (dots s)) < dot_limit s
               \<and> (\<exists>c. dots s1 = dots s @ [c] \<and> \<not> needs_split c
                       \<and> last_collision_normal c = None))"
      and loop: "update_loop s1 dt (dots s1) ([], [], [], w2) = Some (kept, to_add, to_remove, w')"
      and s': "s' = limit_check (s1\<lparr>dots := kept @ to_add\<rparr>)"
      by blast
    from d assms(2) f have n1: "int (length (dots s1)) \<le> dot_limit s1" by auto
    from update_loop_count [OF loop] n1
    have "length kept + length to_remove = length (dots s1)"
      "int (length (dots s1)) + int (length to_add) - int (length to_remove) \<le> dot_limit s1"
      by simp_all
    then have "int (length (kept @ to_add)) \<le> dot_limit s1" by simp
    then show ?thesis using f by (simp add: s' limit_check_def)
  qed
  then show "int (length (dots s')) \<le> dot_limit s'" and "dot_limit s' = dot_limit s"
    by simp_all
qed

text \<open>The pause and the flag after an update pass.\<close>

lemma update_pause:
  assumes "update s dt w = Some (s', w')"
  shows "(\<not> paused s \<and> \<not> limit_reached_paused s \<and> dot_limit s' \<le> int (length (dots s'))
            \<longrightarrow> paused s' \<and> limit_reached_paused s')
       \<and> (limit_reached_paused s \<longrightarrow> limit_reached_paused s' \<and> paused s' = paused s)
       \<and> (int (length (dots s')) < dot_limit s'
            \<longrightarrow> paused s' = paused s \<and> limit_reached_paused s' = limit_reached_paused s)"
proof (cases "paused s")
  case True
  with assms show ?thesis by (simp add: update_paused)
next
  case False
  from update_running [OF assms False]
  obtain s1 w2 kept to_add to_remove where
    f: "dot_limit s1 = dot_limit s" "paused s1 = paused s"
       "limit_reached_paused s1 = limit_reached_paused s"
    and s': "s' = limit_check (s1\<lparr>dots := kept @ to_add\<rparr>)"
    by blast
  show ?thesis
    using f by (auto simp: s' limit_check_def)
qed

lemma update_normal_ok:
  assumes "update s dt w = Some (s', w')" and "\<forall>d \<in> set (dots s). normal_ok d"
  shows "\<forall>d \<in> set (dots s'). normal_ok d"
proof (cases "paused s")
  case True
  with assms show ?thesis by (simp add: update_paused)
next
  case False
  from update_running [OF assms(1) False]
  obtain s1 w2 kept to_add to_remove where
    d: "dots s1 = dots s \<or> (int (length (dots s)) < dot_limit s
             \<and> (\<exists>c. dots s1 = dots s @ [c] \<and> \<not> needs_split c
                     \<and> last_collision_normal c = None))"
    and loop: "update_loop s1 dt (dots s1) ([], [], [], w2) = Some (kept, to_add, to_remove, w')"
    and s': "s' = limit_check (s1\<lparr>dots := kept @ to_add\<rparr>)"
    by blast
  from d assms(2) have "\<forall>x \<in> set (dots s1). normal_ok x"
    by (auto simp: normal_ok_def)
  then have "\<forall>x \<in> set (dots s1) \<union> set [] \<union> set []. normal_ok x" by simp
  from update_loop_normal_ok [OF loop this] show ?thesis
    by (auto simp: s' limit_check_def)
qed

text \<open>Input: every event keeps the population within the cap and the marked dots well-formed.\<close>

lemma reset_fields:
  "dots (fst (reset s w)) = []" "dot_limit (fst (reset s w)) = INITIAL_DOT_LIMIT"
  "paused (fst (reset s w))" "\<not> limit_reached_paused (fst (reset s w))"
  by (simp_all add: reset_def get_ticks_def)

lemma handle_space_dots:
  "dots (fst (handle_space s w)) = dots s
   \<or> (dots s = [] \<and> 0 < dot_limit s
      \<and> (\<exists>c. dots (fst (handle_space s w)) = [c] \<and> \<not> needs_split c
              \<and> last_collision_normal c = None))"
proof (cases "paused s \<and> first_unpause s \<and> dot_limit s > 0 \<and> length (dots s) = 0")
  case True
  with spawn_dot_dots [of s w] show ?thesis
    by (auto simp: handle_space_def Let_def case_prod_beta)
next
  case False
  then have "dots (fst (handle_space s w)) = dots s"
    by (auto simp: handle_space_def Let_def case_prod_beta)
  then show ?thesis by simp
qed

lemma handle_space_limit: "dot_limit s \<le> dot_limit (fst (handle_space s w))"
  by (simp add: handle_space_def Let_def case_prod_beta INITIAL_DOT_LIMIT_def)

lemma handle_space_flag:
  "limit_reached_paused (fst (handle_space s w)) \<longrightarrow> paused (fst (handle_space s w))"
  by (simp add: handle_space_def Let_def case_prod_beta)

lemma handle_event_ok:
  assumes "int (length (dots s)) \<le> dot_limit s"
  shows "int (length (dots (fst (handle_event e (s, w))))) \<le> dot_limit (fst (handle_event e (s, w)))"
proof -
  have sp: "int (length (dots (fst (handle_space s w)))) \<le> dot_limit (fst (handle_space s w))"
    using handle_space_dots [of s w] handle_space_limit [of s w] assms by auto
  have rs: "int (length (dots (fst (reset s' w)))) \<le> dot_limit (fst (reset s' w))" for s'
    by (simp add: reset_fields INITIAL_DOT_LIMIT_def)
  show ?thesis
    using assms sp rs
    by (auto simp: handle_event_def Let_def split: event.splits key.splits option.splits)
qed

section \<open>Runs\<close>

lemma handle_event_normal_ok:
  assumes "\<forall>d \<in> set (dots s). normal_ok d"
  shows "\<forall>d \<in> set (dots (fst (handle_event e (s, w)))). normal_ok d"
proof -
  have sp: "\<forall>d \<in> set (dots (fst (handle_space s w))). normal_ok d"
    using handle_space_dots [of s w] assms by (auto simp: normal_ok_def)
  show ?thesis
    using assms sp
    by (auto simp: handle_event_def Let_def reset_fields
        split: event.splits key.splits option.splits)
qed

lemma handle_event_flag:
  assumes "limit_reached_paused s \<longrightarrow> paused s"
  shows "limit_reached_paused (fst (handle_event e (s, w)))
           \<longrightarrow> paused (fst (handle_event e (s, w)))"
  using assms handle_space_flag [of s w]
  by (auto simp: handle_event_def Let_def reset_fields
      split: event.splits key.splits option.splits)

lemma update_flag:
  assumes "update s dt w = Some (s', w')" and "limit_reached_paused s \<longrightarrow> paused s"
  shows "limit_reached_paused s' \<longrightarrow> paused s'"
proof (cases "paused s")
  case True
  with assms show ?thesis by (simp add: update_paused)
next
  case False
  from update_running [OF assms(1) False]
  obtain s1 w2 kept to_add to_remove where
    f: "paused s1 = paused s" "limit_reached_paused s1 = limit_reached_paused s"
    and s': "s' = limit_check (s1\<lparr>dots := kept @ to_add\<rparr>)"
    by blast
  show ?thesis
    using f assms(2) False by (auto simp: s' limit_check_def)
qed

text \<open>A property that every event and every update pass keeps holds along a run.\<close>

lemma handle_input_invariant:
  assumes "\<And>e s w. P s \<Longrightarrow> P (fst (handle_event e (s, w)))" and "P s"
  shows "P (fst (handle_input events s w))"
proof -
  have "P (fst (fold handle_event events sw))" if "P (fst sw)" for sw
    using that
  proof (induction events arbitrary: sw)
    case Nil
    then show ?case by simp
  next
    case (Cons e es)
    have "P (fst (handle_event e sw))"
      using assms(1) [of "fst sw" e "snd sw"] Cons.prems by simp
    from Cons.IH [OF this] show ?case by simp
  qed
  from this [of "(s, w)"] assms(2) show ?thesis
    by (simp add: handle_input_def)
qed

lemma tick_invariant:
  assumes "\<And>e s w. P s \<Longrightarrow> P (fst (handle_event e (s, w)))"
      and "\<And>s dt w s' w'. P s \<Longrightarrow> update s dt w = Some (s', w') \<Longrightarrow> P s'"
      and "P s" and "tick frame s w = Some (s', w')"
  shows "P s'"
proof -
  obtain events frame_seconds where fr: "frame = (events, frame_seconds)"
    by (cases frame)
  let ?sw = "handle_input events s w"
  have p1: "P (fst ?sw)"
    by (rule handle_input_invariant [OF assms(1) assms(3)])
  show ?thesis
  proof (cases "running (fst ?sw)")
    case False
    with assms(4) have "s' = fst ?sw"
      by (simp add: tick_def fr case_prod_beta)
    with p1 show ?thesis by simp
  next
    case True
    with assms(4) obtain dt where "update (fst ?sw) dt (snd ?sw) = Some (s', w')"
      by (simp add: tick_def fr case_prod_beta Let_def)
    from assms(2) [OF p1 this] show ?thesis .
  qed
qed

lemma run_invariant:
  assumes "\<And>e s w. P s \<Longrightarrow> P (fst (handle_event e (s, w)))"
      and "\<And>s dt w s' w'. P s \<Longrightarrow> update s dt w = Some (s', w') \<Longrightarrow> P s'"
      and "P s" and "run frames s w = Some (s', w')"
  shows "P s'"
  using assms(3,4)
proof (induction frames arbitrary: s w)
  case Nil
  then show ?case by simp
next
  case (Cons frame frames)
  show ?case
  proof (cases "running s")
    case False
    with Cons.prems show ?thesis by simp
  next
    case True
    with Cons.prems(2) obtain s1 w1 where t: "tick frame s w = Some (s1, w1)"
        and r: "run frames s1 w1 = Some (s', w')"
      by (auto split: option.splits)
    have "P s1"
      by (rule tick_invariant [OF assms(1) assms(2) Cons.prems(1) t])
    from Cons.IH [OF this r] show ?thesis .
  qed
qed

lemma run_count:
  assumes "int (length (dots s)) \<le> dot_limit s" and "run frames s w = Some (s', w')"
  shows "int (length (dots s')) \<le> dot_limit s'"
  by (rule run_invariant [where P = "\<lambda>s. int (length (dots s)) \<le> dot_limit s",
        OF handle_event_ok update_count(1) assms])

lemma run_flag:
  assumes "limit_reached_paused s \<longrightarrow> paused s" and "run frames s w = Some (s', w')"
  shows "limit_reached_paused s' \<longrightarrow> paused s'"
  by (rule run_invariant [where P = "\<lambda>s. limit_reached_paused s \<longrightarrow> paused s",
        OF handle_event_flag update_flag assms])

lemma run_normal_ok:
  assumes "\<forall>d \<in> set (dots s). normal_ok d" and "run frames s w = Some (s', w')"
  shows "\<forall>d \<in> set (dots s'). normal_ok d"
  by (rule run_invariant [where P = "\<lambda>s. \<forall>d \<in> set (dots s). normal_ok d",
        OF handle_event_normal_ok update_normal_ok assms])

section \<open>The population cap\<close>

lemmas update_eval_defs =
  update_def spawn_on_interval_def limit_check_def
  update_dot_def collide_or_move_def handle_collisions_def predictive_sweep_def
  sweep_segment_def square_segments_def bottom_edge_def due_dot_def inner_dot_def Dot_def
  find_closest_point_on_segment_def below_min_collision_dt_def above_max_overlap_def
  vec_defs collision_cfg_defs Let_def square_sim_def safety_net_def
  safety_segment_def should_split_def get_ticks_def steady_world_def move_def
  SPLIT_DELAY_def REGULAR_SPAWN_INTERVAL_def

lemmas split_eval_defs =
  split_def split_child_def uniform_def random_draw_def random_color_def randint_def
  from_polar_def radians_def normalize_def stored_normal_angle_def angle_to_def atan2_def
  degrees_def normal_for_split_def SPLIT_ANGLE_RANGE_def INITIAL_DOT_SPEED_def

text \<open>
  An update pass of \<open>crowded_sim\<close>: the first dot splits, the second finds the cap
  reached and is unmarked, and the pass ends paused with the flag set.
\<close>

lemma update_crowded_sim:
  "update crowded_sim (1 / 60) steady_world
     = Some (crowded_sim
               \<lparr>dots := [due_dot\<lparr>pos := (266 / 5, 764 / 15), needs_split := False\<rparr>,
                         Dot (587 / 10) (764 / 15) 200 0 (153, 153, 153),
                         Dot (587 / 10) (764 / 15) 200 0 (153, 153, 153)],
                 paused := True, limit_reached_paused := True\<rparr>,
             steady_world\<lparr>clock_reads := 3, draws_taken := 8\<rparr>)"
  by (simp add: update_eval_defs split_eval_defs crowded_sim_def)

text \<open>
  C4. Take any state whose particle count is at most its cap, any sequence of frames
  run from it, and the update pass of the next frame, after that frame's input. After
  the pass the count is at most the cap, so it never exceeds the cap by more than one.
  If the pass ran with the flag clear and the count has reached the cap, the simulation
  is paused and the flag set; a pass that starts with the flag set leaves the pause and
  the flag as they are, and a pass that ends below the cap changes neither: the
  controller pauses once for each time the cap is reached. From a state in which the flag
  implies the pause, the flag implies the pause after every pass, so no pass runs while
  the flag is set.
\<close>

theorem population_within_cap:
  assumes "int (length (dots s0)) \<le> dot_limit s0"
      and "run frames s0 w0 = Some (s, w)"
      and "update (fst (handle_input events s w)) dt (snd (handle_input events s w))
             = Some (s', w')"
  shows "int (length (dots s')) \<le> dot_limit s' + 1
       \<and> int (length (dots s')) \<le> dot_limit s'
       \<and> (\<not> paused (fst (handle_input events s w))
            \<and> \<not> limit_reached_paused (fst (handle_input events s w))
            \<and> dot_limit s' \<le> int (length (dots s'))
              \<longrightarrow> paused s' \<and> limit_reached_paused s')
       \<and> (limit_reached_paused (fst (handle_input events s w))
              \<longrightarrow> limit_reached_paused s' \<and> paused s' = paused (fst (handle_input events s w)))
       \<and> (int (length (dots s')) < dot_limit s'
              \<longrightarrow> paused s' = paused (fst (handle_input events s w))
                  \<and> limit_reached_paused s'
                      = limit_reached_paused (fst (handle_input events s w)))
       \<and> ((limit_reached_paused s0 \<longrightarrow> paused s0) \<longrightarrow> (limit_reached_paused s' \<longrightarrow> paused s'))"
proof -
  let ?s1 = "fst (handle_input events s w)"
  have c: "int (length (dots s)) \<le> dot_limit s"
    by (rule run_count [OF assms(1,2)])
  have c1: "int (length (dots ?s1)) \<le> dot_limit ?s1"
    by (rule handle_input_invariant
          [where P = "\<lambda>s. int (length (dots s)) \<le> dot_limit s", OF handle_event_ok c])
  have c2: "int (length (dots s')) \<le> dot_limit s'"
    by (rule update_count(1) [OF assms(3) c1])
  have fl: "limit_reached_paused s' \<longrightarrow> paused s'" if "limit_reached_paused s0 \<longrightarrow> paused s0"
  proof -
    have fs: "limit_reached_paused s \<longrightarrow> paused s"
      by (rule run_flag [OF that assms(2)])
    have "limit_reached_paused ?s1 \<longrightarrow> paused ?s1"
      by (rule handle_input_invariant
            [where P = "\<lambda>s. limit_reached_paused s \<longrightarrow> paused s",
             OF handle_event_flag fs])
    from update_flag [OF assms(3) this] show ?thesis .
  qed
  from c2 update_pause [OF assms(3)] fl show ?thesis
    by simp
qed

theorem population_within_cap_witness:
  "int (length (dots crowded_sim)) \<le> dot_limit crowded_sim
   \<and> run [] crowded_sim steady_world = Some (crowded_sim, steady_world)
   \<and> update (fst (handle_input [] crowded_sim steady_world)) (1 / 60)
        (snd (handle_input [] crowded_sim steady_world))
       = Some (crowded_sim
                 \<lparr>dots := [due_dot\<lparr>pos := (266 / 5, 764 / 15), needs_split := False\<rparr>,
                           Dot (587 / 10) (764 / 15) 200 0 (153, 153, 153),
                           Dot (587 / 10) (764 / 15) 200 0 (153, 153, 153)],
                   paused := True, limit_reached_paused := True\<rparr>,
               steady_world\<lparr>clock_reads := 3, draws_taken := 8\<rparr>)
   \<and> \<not> paused crowded_sim \<and> \<not> limit_reached_paused crowded_sim
   \<and> dot_limit crowded_sim = 3"
proof -
  have h1: "int (length (dots crowded_sim)) \<le> dot_limit crowded_sim"
    by (simp add: crowded_sim_def)
  have h2: "run [] crowded_sim steady_world = Some (crowded_sim, steady_world)"
    by simp
  have h3: "update (fst (handle_input [] crowded_sim steady_world)) (1 / 60)
        (snd (handle_input [] crowded_sim steady_world))
       = Some (crowded_sim
                 \<lparr>dots := [due_dot\<lparr>pos := (266 / 5, 764 / 15), needs_split := False\<rparr>,
                           Dot (587 / 10) (764 / 15) 200 0 (153, 153, 153),
                           Dot (587 / 10) (764 / 15) 200 0 (153, 153, 153)],
                   paused := True, limit_reached_paused := True\<rparr>,
               steady_world\<lparr>clock_reads := 3, draws_taken := 8\<rparr>)"
    by (simp add: handle_input_def update_crowded_sim)
  have f: "\<not> paused crowded_sim" "\<not> limit_reached_paused crowded_sim" "dot_limit crowded_sim = 3"
    by (simp_all add: crowded_sim_def square_sim_def)
  show ?thesis
    using population_within_cap [OF h1 h2 h3] h1 h2 h3 f by simp
qed

section \<open>The stored normal\<close>

lemma update_dot_full_sim:
  "update_dot full_sim (1 / 60) due_dot ([], [], [], steady_world)
     = Some ([due_dot\<lparr>pos := (266 / 5, 764 / 15), needs_split := False\<rparr>], [], [],
             steady_world\<lparr>clock_reads := 1\<rparr>)"
  by (simp add: update_eval_defs full_sim_def)

text \<open>
  C3, as stated, fails. \<open>full_sim\<close> holds as many dots as its cap allows, which is the
  state of the loop of \<^verbatim>\<open>update\<close> once a spawn or earlier splits of the same pass
  have filled the cap. Its first dot is marked and its split is due. The pass of the loop
  over that dot finds no room, so it only resets the flag: the dot it keeps is unmarked
  and still stores the normal \<open>(1, 0)\<close>.
\<close>

theorem stored_normal_counterexample:
  "due_dot \<in> set (dots full_sim)
   \<and> int (length (dots full_sim)) = dot_limit full_sim
   \<and> update_dot full_sim (1 / 60) due_dot ([], [], [], steady_world)
       = Some ([due_dot\<lparr>pos := (266 / 5, 764 / 15), needs_split := False\<rparr>], [], [],
               steady_world\<lparr>clock_reads := 1\<rparr>)
   \<and> \<not> needs_split (due_dot\<lparr>pos := (266 / 5, 764 / 15), needs_split := False\<rparr>)
   \<and> last_collision_normal (due_dot\<lparr>pos := (266 / 5, 764 / 15), needs_split := False\<rparr>)
       = Some (1, 0)"
  using update_dot_full_sim
  by (simp add: full_sim_def square_sim_def due_dot_def)

text \<open>
  A run from a reset on the small circle: the space bar spawns a dot at the centre,
  and the first update pass, a tenth of a second long, takes it into the wall, where
  it is reflected and marked.
\<close>

lemma run_small_circle:
  "run [([KEYDOWN K_SPACE], 1 / 10)] (fst (reset small_circle_sim steady_world))
       (snd (reset small_circle_sim steady_world))
     = Some (small_circle_sim
               \<lparr>dots := [(Dot (522500001 / 1000000) 540 200 0 (153, 153, 153))
                           \<lparr>needs_split := True, split_timer_start := 100,
                              last_collision_normal := Some (1, 0)\<rparr>],
                 running := True, dot_limit := 10000, last_spawn_time := 100\<rparr>,
             steady_world\<lparr>clock_reads := 5, draws_taken := 4\<rparr>)"
  by (simp add: tick_def handle_input_def handle_event_def handle_space_def reset_def
      get_ticks_def spawn_dot_def uniform_def random_draw_def random_color_def randint_def
      from_polar_def radians_def degrees_def Dot_def small_circle_sim_def steady_world_def
      update_def spawn_on_interval_def limit_check_def update_dot_def collide_or_move_def
      handle_collisions_def circle_collision_def reflect_velocity_def reflect_def
      mark_for_split_def normalize_def should_split_def move_def center_pos_def
      CENTER_X_def CENTER_Y_def WIDTH_def HEIGHT_def INITIAL_DOT_SPEED_def
      INITIAL_DOT_LIMIT_def REGULAR_SPAWN_INTERVAL_def SPLIT_DELAY_def
      vec_defs collision_cfg_defs Let_def)

lemma collide_or_move_due_dot:
  "collide_or_move full_sim (1 / 60) due_dot steady_world
     = Some (due_dot\<lparr>pos := (266 / 5, 764 / 15)\<rparr>, steady_world)"
  by (simp add: update_eval_defs full_sim_def)

lemma should_split_needs: "fst (should_split d w) \<Longrightarrow> needs_split d"
  by (cases "needs_split d") (simp_all add: should_split_def)

text \<open>
  C3, amended. In every state reached by a run from a reset, every marked dot stores a
  normal of length one. A split leaves its parent unmarked with no stored normal, and
  only a split clears a stored normal: a pass of the update loop over a dot that stores
  a normal either splits it, or keeps a dot that stores a normal. When the split of a
  well-formed dot is due and the cap leaves no room, the pass keeps the dot, unmarked
  and otherwise as the collision step left it: its stored normal is still there, of
  length one.
\<close>

theorem stored_normal_lifecycle:
  "(run frames (fst (reset s0 w0)) w1 = Some (s, w) \<longrightarrow> (\<forall>x \<in> set (dots s). normal_ok x))
   \<and> (split p wp = Some (parent, new_dots, wp')
        \<longrightarrow> \<not> needs_split parent \<and> last_collision_normal parent = None)
   \<and> (update_dot sa dta a (kept, to_add, to_remove, wa) = Some (kept', to_add', to_remove', wa')
        \<and> last_collision_normal a \<noteq> None
        \<longrightarrow> (kept' = kept
              \<and> (\<exists>q. to_remove' = to_remove @ [q] \<and> last_collision_normal q = None))
            \<or> (to_remove' = to_remove
              \<and> (\<exists>e. kept' = kept @ [e] \<and> last_collision_normal e \<noteq> None)))
   \<and> (normal_ok b \<and> collide_or_move sb dtb b wb = Some (b1, wb1)
        \<and> fst (should_split b1 wb1)
        \<and> \<not> int (length (dots sb)) + int (length adds) - int (length rems) < dot_limit sb
        \<longrightarrow> update_dot sb dtb b (keeps, adds, rems, wb)
              = Some (keeps @ [b1\<lparr>needs_split := False\<rparr>], adds, rems,
                      snd (should_split b1 wb1))
            \<and> (\<exists>n. last_collision_normal (b1\<lparr>needs_split := False\<rparr>) = Some n
                   \<and> length_squared n = 1))"
proof (intro conjI impI)
  assume "run frames (fst (reset s0 w0)) w1 = Some (s, w)"
  moreover have "\<forall>x \<in> set (dots (fst (reset s0 w0))). normal_ok x"
    by (simp add: reset_fields)
  ultimately show "\<forall>x \<in> set (dots s). normal_ok x"
    by (rule run_normal_ok [rotated])
next
  assume "split p wp = Some (parent, new_dots, wp')"
  from split_result [OF this] show "\<not> needs_split parent" "last_collision_normal parent = None"
    by simp_all
next
  assume h: "update_dot sa dta a (kept, to_add, to_remove, wa)
               = Some (kept', to_add', to_remove', wa')
             \<and> last_collision_normal a \<noteq> None"
  from update_dot_cases [OF conjunct1 [OF h]] obtain a1 w1'
    where cm: "collide_or_move sa dta a wa = Some (a1, w1')"
      and cases: "(\<exists>q c1 c2.
                  split a1 (snd (should_split a1 w1')) = Some (q, [c1, c2], wa')
                  \<and> kept' = kept \<and> to_remove' = to_remove @ [q])
         \<or> (kept' = kept @ [a1\<lparr>needs_split := False\<rparr>] \<and> to_remove' = to_remove)
         \<or> (kept' = kept @ [a1] \<and> to_remove' = to_remove)"
    by blast
  have keep: "last_collision_normal a1 \<noteq> None"
    by (rule collide_or_move_keeps_normal [OF cm conjunct2 [OF h]])
  from cases
  show "(kept' = kept \<and> (\<exists>q. to_remove' = to_remove @ [q] \<and> last_collision_normal q = None))
        \<or> (to_remove' = to_remove \<and> (\<exists>e. kept' = kept @ [e] \<and> last_collision_normal e \<noteq> None))"
  proof (elim disjE exE conjE)
    fix q c1 c2
    assume sp: "split a1 (snd (should_split a1 w1')) = Some (q, [c1, c2], wa')"
      and e: "kept' = kept" "to_remove' = to_remove @ [q]"
    from split_result [OF sp] have "last_collision_normal q = None" by simp
    with e show ?thesis by blast
  next
    assume "kept' = kept @ [a1\<lparr>needs_split := False\<rparr>]" "to_remove' = to_remove"
    with keep show ?thesis by simp
  next
    assume "kept' = kept @ [a1]" "to_remove' = to_remove"
    with keep show ?thesis by simp
  qed
next
  assume h: "normal_ok b \<and> collide_or_move sb dtb b wb = Some (b1, wb1)
        \<and> fst (should_split b1 wb1)
        \<and> \<not> int (length (dots sb)) + int (length adds) - int (length rems) < dot_limit sb"
  then have ok: "normal_ok b" and cm: "collide_or_move sb dtb b wb = Some (b1, wb1)"
    and due: "fst (should_split b1 wb1)"
    and full: "\<not> int (length (dots sb)) + int (length adds) - int (length rems) < dot_limit sb"
    by simp_all
  show "update_dot sb dtb b (keeps, adds, rems, wb)
          = Some (keeps @ [b1\<lparr>needs_split := False\<rparr>], adds, rems, snd (should_split b1 wb1))"
    using cm due full by (simp add: update_dot_def case_prod_beta)
  have "normal_ok b1"
    by (rule collide_or_move_normal_ok [OF cm ok])
  with should_split_needs [OF due]
  show "\<exists>n. last_collision_normal (b1\<lparr>needs_split := False\<rparr>) = Some n \<and> length_squared n = 1"
    by (auto simp: normal_ok_def split: option.splits)
qed

theorem stored_normal_lifecycle_witness:
  "run [([KEYDOWN K_SPACE], 1 / 10)] (fst (reset small_circle_sim steady_world))
       (snd (reset small_circle_sim steady_world))
     = Some (small_circle_sim
               \<lparr>dots := [(Dot (522500001 / 1000000) 540 200 0 (153, 153, 153))
                           \<lparr>needs_split := True, split_timer_start := 100,
                              last_collision_normal := Some (1, 0)\<rparr>],
                 running := True, dot_limit := 10000, last_spawn_time := 100\<rparr>,
             steady_world\<lparr>clock_reads := 5, draws_taken := 4\<rparr>)
   \<and> normal_ok ((Dot (522500001 / 1000000) 540 200 0 (153, 153, 153))
                  \<lparr>needs_split := True, split_timer_start := 100,
                     last_collision_normal := Some (1, 0)\<rparr>)
   \<and> split marked_dot steady_world =
       Some (marked_dot\<lparr>needs_split := False, last_collision_normal := None\<rparr>,
             [Dot (211 / 2) 200 200 0 (153, 153, 153), Dot (211 / 2) 200 200 0 (153, 153, 153)],
             steady_world\<lparr>draws_taken := 8\<rparr>)
   \<and> last_collision_normal due_dot \<noteq> None
   \<and> normal_ok due_dot
   \<and> collide_or_move full_sim (1 / 60) due_dot steady_world
       = Some (due_dot\<lparr>pos := (266 / 5, 764 / 15)\<rparr>, steady_world)
   \<and> fst (should_split (due_dot\<lparr>pos := (266 / 5, 764 / 15)\<rparr>) steady_world)
   \<and> \<not> int (length (dots full_sim)) + int (length ([] :: dot list))
          - int (length ([] :: dot list)) < dot_limit full_sim
   \<and> update_dot full_sim (1 / 60) due_dot ([], [], [], steady_world)
       = Some ([due_dot\<lparr>pos := (266 / 5, 764 / 15), needs_split := False\<rparr>], [], [],
               steady_world\<lparr>clock_reads := 1\<rparr>)
   \<and> last_collision_normal (due_dot\<lparr>pos := (266 / 5, 764 / 15), needs_split := False\<rparr>)
       = Some (1, 0)
   \<and> length_squared (1, 0) = 1"
proof -
  have h3: "last_collision_normal due_dot \<noteq> None"
    by (simp add: due_dot_def)
  have h4: "normal_ok due_dot"
    by (simp add: due_dot_def normal_ok_def length_squared_def)
  have h5: "fst (should_split (due_dot\<lparr>pos := (266 / 5, 764 / 15)\<rparr>) steady_world)"
    by (simp add: should_split_def due_dot_def inner_dot_def Dot_def get_ticks_def
        steady_world_def SPLIT_DELAY_def)
  have h6: "\<not> int (length (dots full_sim)) + int (length ([] :: dot list))
          - int (length ([] :: dot list)) < dot_limit full_sim"
    by (simp add: full_sim_def square_sim_def)
  have n: "last_collision_normal (due_dot\<lparr>pos := (266 / 5, 764 / 15), needs_split := False\<rparr>)
       = Some (1, 0)" "length_squared (1, 0) = 1"
    by (simp_all add: due_dot_def length_squared_def)
  show ?thesis
    using stored_normal_lifecycle
      [where frames = "[([KEYDOWN K_SPACE], 1 / 10)]" and ?s0.0 = small_circle_sim
         and ?w0.0 = steady_world and ?w1.0 = "snd (reset small_circle_sim steady_world)"
         and s = "small_circle_sim
               \<lparr>dots := [(Dot (522500001 / 1000000) 540 200 0 (153, 153, 153))
                           \<lparr>needs_split := True, split_timer_start := 100,
                              last_collision_normal := Some (1, 0)\<rparr>],
                 running := True, dot_limit := 10000, last_spawn_time := 100\<rparr>"
         and w = "steady_world\<lparr>clock_reads := 5, draws_taken := 4\<rparr>"
         and p = marked_dot and wp = steady_world
         and parent = "marked_dot\<lparr>needs_split := False, last_collision_normal := None\<rparr>"
         and new_dots = "[Dot (211 / 2) 200 200 0 (153, 153, 153),
                          Dot (211 / 2) 200 200 0 (153, 153, 153)]"
         and wp' = "steady_world\<lparr>draws_taken := 8\<rparr>"
         and sa = full_sim and dta = "1 / 60" and a = due_dot and kept = "[]" and to_add = "[]"
         and to_remove = "[]" and wa = steady_world
         and kept' = "[due_dot\<lparr>pos := (266 / 5, 764 / 15), needs_split := False\<rparr>]"
         and to_add' = "[]" and to_remove' = "[]"
         and wa' = "steady_world\<lparr>clock_reads := 1\<rparr>"
         and b = due_dot and sb = full_sim and dtb = "1 / 60" and wb = steady_world
         and ?b1.0 = "due_dot\<lparr>pos := (266 / 5, 764 / 15)\<rparr>" and ?wb1.0 = steady_world
         and adds = "[]" and rems = "[]" and keeps = "[]"]
      run_small_circle split_marked_dot update_dot_full_sim collide_or_move_due_dot
      h3 h4 h5 h6 n
    by simp
qed

section \<open>Collide or move\<close>

lemma normalize_of_unit:
  assumes "length_squared m = 1"
  shows "normalize m = Some m"
  using assms by (simp add: normalize_def vlength_def Let_def)

text \<open>Marking with a unit normal, in full.\<close>

lemma mark_for_split_unit:
  assumes "length_squared m = 1"
  shows "mark_for_split m d w
           = Some (if needs_split d then (d, w)
                   else (d\<lparr>needs_split := True, split_timer_start := clock w (clock_reads w),
                           last_collision_normal := Some m\<rparr>,
                         w\<lparr>clock_reads := clock_reads w + 1\<rparr>))"
  using assms
  by (simp add: mark_for_split_def get_ticks_def Let_def normalize_of_unit)

text \<open>
  The common end of the collision branches, in full, for a unit wall normal \<open>n\<close>, a unit
  inward normal \<open>m\<close> and a velocity that the code reflects.
\<close>

lemma collide_at_unit:
  assumes "length_squared n = 1" and "length_squared m = 1"
      and "epsilon < length_squared (vel d)"
  shows "collide_at p n m d w
           = Some (if needs_split d
                   then (d\<lparr>pos := p, vel := vsub (vel d) (smul n (2 * vdot (vel d) n))\<rparr>, True, w)
                   else (d\<lparr>pos := p, vel := vsub (vel d) (smul n (2 * vdot (vel d) n)),
                           needs_split := True, split_timer_start := clock w (clock_reads w),
                           last_collision_normal := Some m\<rparr>,
                         True, w\<lparr>clock_reads := clock_reads w + 1\<rparr>))"
  using assms(3)
  by (simp add: reflect_velocity_def reflect_unit [OF assms(1)] mark_for_split_unit [OF assms(2)])

lemma vlength_pos_iff: "0 < vlength a \<longleftrightarrow> 0 < length_squared a"
  by (simp add: vlength_def)

text \<open>The circle branch: either no collision, or a collision along the unit vector \<open>m\<close>
  that points from the next position to the centre.\<close>

lemma circle_collision_exact:
  "circle_collision radius off d dt w = Some (d, False, w)
   \<or> (\<exists>m. length_squared m = 1
          \<and> (if vlength (vsub center_pos (vadd (pos d) (smul (vel d) dt))) > epsilon
              then normalize (vsub center_pos (vadd (pos d) (smul (vel d) dt))) = Some m
              else m = (0, 1))
          \<and> circle_collision radius off d dt w
              = collide_at
                  (vsub center_pos
                     (smul m (max 0 (radius - BOUNDARY_THICKNESS / 2 - off - DOT_RADIUS) - epsilon)))
                  (vneg m) m d w)"
proof -
  let ?cd = "max 0 (radius - BOUNDARY_THICKNESS / 2 - off - DOT_RADIUS)"
  let ?vec = "vsub center_pos (vadd (pos d) (smul (vel d) dt))"
  let ?dist = "if length_squared ?vec > 0 then sqrt (length_squared ?vec) else 0"
  have ge: "0 \<le> length_squared ?vec" by (simp add: length_squared_def)
  have dist: "?dist = vlength ?vec"
    using ge by (auto simp: vlength_def)
  show ?thesis
  proof (cases "length_squared ?vec \<ge> ?cd * ?cd - epsilon")
    case False
    then show ?thesis by (simp add: circle_collision_def Let_def)
  next
    case True
    obtain m where m: "(if vlength ?vec > epsilon then normalize ?vec else Some (0, 1)) = Some m"
        "length_squared m = 1"
    proof (cases "vlength ?vec > epsilon")
      case far: True
      then have "0 < vlength ?vec" by (simp add: epsilon_def)
      then have "0 < length_squared ?vec" by (simp add: vlength_pos_iff)
      from normalize_total [OF this] far that show ?thesis by auto
    next
      case near: False
      then show ?thesis using that [of "(0, 1)"] by (simp add: length_squared_def)
    qed
    have pin: "if vlength ?vec > epsilon then normalize ?vec = Some m else m = (0, 1)"
      using m(1) by (simp split: if_splits)
    have "circle_collision radius off d dt w
            = collide_at (vsub center_pos (smul m (?cd - epsilon))) (vneg m) m d w"
      using True m(1) unfolding circle_collision_def Let_def dist by simp
    with m(2) pin show ?thesis by blast
  qed
qed

lemma resolve_predictive_exact:
  "resolve_predictive d off (v_start, v_end, seg_vec, seg_len_sq, n) q w
     = collide_at
         (if overlap_depth off (v_start, v_end, seg_vec, seg_len_sq, n) q > - epsilon
          then vsub q (smul n (overlap_depth off (v_start, v_end, seg_vec, seg_len_sq, n) q
                                + epsilon))
          else q)
         n (vneg n) d w"
  by (simp add: resolve_predictive_def overlap_depth_def Let_def)

lemma safety_fold_overlap:
  "fold (safety_segment np off) segs st = Some (ov, sg)
     \<Longrightarrow> (sg \<in> set segs \<and> ov = overlap_depth off sg np) \<or> st = Some (ov, sg)"
proof (induction segs arbitrary: st)
  case Nil
  then show ?case by simp
next
  case (Cons x xs)
  from Cons.IH [of "safety_segment np off x st"] Cons.prems
  have "(sg \<in> set xs \<and> ov = overlap_depth off sg np)
        \<or> safety_segment np off x st = Some (ov, sg)" by simp
  then show ?case
    by (auto simp: safety_segment_def overlap_depth_def Let_def split: prod.splits if_splits)
qed

lemma safety_net_exact:
  "safety_net d off segs dt w = Some (d, False, w)
   \<or> (\<exists>v_start v_end seg_vec seg_len_sq n.
         (v_start, v_end, seg_vec, seg_len_sq, n) \<in> set segs
         \<and> vdot (vel d) n > epsilon
         \<and> overlap_depth off (v_start, v_end, seg_vec, seg_len_sq, n)
              (vadd (pos d) (smul (vel d) dt)) > epsilon
         \<and> safety_net d off segs dt w
             = collide_at
                 (vsub (vadd (pos d) (smul (vel d) dt))
                    (smul n (overlap_depth off (v_start, v_end, seg_vec, seg_len_sq, n)
                               (vadd (pos d) (smul (vel d) dt)) + epsilon)))
                 n (vneg n) d w)"
proof (cases "fold (safety_segment (vadd (pos d) (smul (vel d) dt)) off) segs None")
  case None
  then show ?thesis by (simp add: safety_net_def Let_def)
next
  case (Some r)
  let ?np = "vadd (pos d) (smul (vel d) dt)"
  obtain ov v_start v_end seg_vec seg_len_sq n
    where r: "r = (ov, (v_start, v_end, seg_vec, seg_len_sq, n))"
    by (cases r) auto
  from safety_fold_overlap [OF Some [unfolded r]]
  have mem: "(v_start, v_end, seg_vec, seg_len_sq, n) \<in> set segs"
    and ov: "ov = overlap_depth off (v_start, v_end, seg_vec, seg_len_sq, n) ?np"
    by simp_all
  show ?thesis
  proof (cases "ov > epsilon \<and> vdot (vel d) n > epsilon")
    case True
    then have "safety_net d off segs dt w
                = collide_at (vsub ?np (smul n (ov + epsilon))) n (vneg n) d w"
      using Some r by (simp add: safety_net_def Let_def)
    with mem True show ?thesis unfolding ov by blast
  next
    case False
    then have "safety_net d off segs dt w = Some (d, False, w)"
      using Some r by (auto simp: safety_net_def Let_def)
    then show ?thesis by simp
  qed
qed

text \<open>A point pushed back along a unit normal loses that much depth.\<close>

lemma overlap_depth_pushed:
  assumes "length_squared n = 1"
  shows "overlap_depth off (v_start, v_end, seg_vec, seg_len_sq, n) (vsub q (smul n k))
           = overlap_depth off (v_start, v_end, seg_vec, seg_len_sq, n) q - k"
proof -
  have "vdot (vsub (vsub q (smul n k)) v_start) n
          = vdot (vsub q v_start) n - k * length_squared n"
    by (simp add: vdot_def vsub_def smul_def length_squared_def algebra_simps)
  then show ?thesis
    by (simp add: overlap_depth_def assms)
qed

lemma vneg_vneg [simp]: "vneg (vneg a) = a"
  by (simp add: vneg_def)

lemma length_squared_pushed_from_center:
  assumes "length_squared m = 1"
  shows "length_squared (vsub c (vsub c (smul m k))) = k * k"
proof -
  have "length_squared (vsub c (vsub c (smul m k))) = k * k * length_squared m"
    by (simp add: length_squared_def vsub_def smul_def algebra_simps)
  then show ?thesis by (simp add: assms)
qed

text \<open>The collision branch of each shape, with its place and normal.\<close>

lemma handle_collisions_contact:
  assumes "unit_normals (current_shape_data s)"
  shows "handle_collisions s d dt w = Some (d, False, w)
       \<or> (\<exists>p n. wall_contact s d dt p n
               \<and> handle_collisions s d dt w = collide_at p n (vneg n) d w)"
proof (cases "current_shape_data s")
  case (Circle radius)
  let ?off = "COLLISION_BOUNDS_INWARD_OFFSET (current_shape_name s)"
  let ?cd = "max 0 (radius - BOUNDARY_THICKNESS / 2 - ?off - DOT_RADIUS)"
  let ?vec = "vsub center_pos (vadd (pos d) (smul (vel d) dt))"
  have h: "handle_collisions s d dt w = circle_collision radius ?off d dt w"
    using Circle by (simp add: handle_collisions_def)
  from circle_collision_exact [of radius ?off d dt w]
  consider "circle_collision radius ?off d dt w = Some (d, False, w)"
    | m where "length_squared m = 1"
        "if vlength ?vec > epsilon then normalize ?vec = Some m else m = (0, 1)"
        "circle_collision radius ?off d dt w
           = collide_at (vsub center_pos (smul m (?cd - epsilon))) (vneg m) m d w"
    by blast
  then show ?thesis
  proof cases
    case 1
    then show ?thesis by (simp add: h)
  next
    case 2
    have wc: "wall_contact s d dt (vsub center_pos (smul m (?cd - epsilon))) (vneg m)"
      using 2(1,2) Circle
      by (simp add: wall_contact_def Let_def length_squared_pushed_from_center)
    have "handle_collisions s d dt w
            = collide_at (vsub center_pos (smul m (?cd - epsilon))) (vneg m) (vneg (vneg m)) d w"
      using 2(3) by (simp add: h)
    with wc show ?thesis by blast
  qed
next
  case (Polygon verts segs)
  let ?off = "COLLISION_BOUNDS_INWARD_OFFSET (current_shape_name s)"
  let ?np = "vadd (pos d) (smul (vel d) dt)"
  have un: "\<And>v_start v_end seg_vec seg_len_sq n.
              (v_start, v_end, seg_vec, seg_len_sq, n) \<in> set segs \<Longrightarrow> length_squared n = 1"
    using assms Polygon by (auto simp: unit_normals_def list_all_iff)
  show ?thesis
  proof (cases "predictive_sweep d ?off segs")
    case None
    then have h: "handle_collisions s d dt w = safety_net d ?off segs dt w"
      using Polygon by (simp add: handle_collisions_def)
    from safety_net_exact [of d ?off segs dt w]
    consider "safety_net d ?off segs dt w = Some (d, False, w)"
      | v_start v_end seg_vec seg_len_sq n
      where "(v_start, v_end, seg_vec, seg_len_sq, n) \<in> set segs"
        "vdot (vel d) n > epsilon"
        "overlap_depth ?off (v_start, v_end, seg_vec, seg_len_sq, n) ?np > epsilon"
        "safety_net d ?off segs dt w
           = collide_at
               (vsub ?np (smul n (overlap_depth ?off (v_start, v_end, seg_vec, seg_len_sq, n) ?np
                                   + epsilon)))
               n (vneg n) d w"
      by blast
    then show ?thesis
    proof cases
      case 1
      then show ?thesis by (simp add: h)
    next
      case 2
      let ?sg = "(v_start, v_end, seg_vec, seg_len_sq, n)"
      let ?p = "vsub ?np (smul n (overlap_depth ?off ?sg ?np + epsilon))"
      have u: "length_squared n = 1" by (rule un [OF 2(1)])
      have inside: "overlap_depth ?off ?sg ?p \<le> - epsilon"
        by (simp add: overlap_depth_pushed [OF u])
      have "wall_contact s d dt ?p n"
        unfolding wall_contact_def Let_def Polygon shape.case
        using 2(1,2,3) u inside None
        by (intro bexI [of _ ?sg]) simp_all
      with 2(4) show ?thesis unfolding h by blast
    qed
  next
    case (Some r)
    obtain t v_start v_end seg_vec seg_len_sq n q
      where r: "r = (t, (v_start, v_end, seg_vec, seg_len_sq, n), q)"
      by (cases r) auto
    let ?sg = "(v_start, v_end, seg_vec, seg_len_sq, n)"
    have h: "handle_collisions s d dt w = resolve_predictive d ?off ?sg q w"
      using Polygon Some r by (simp add: handle_collisions_def)
    from sweep_fold [where d = d and off = ?off and segs = segs and st = None] Some r
    have sel: "?sg \<in> set segs" "edge_qualifies d ?off ?sg"
        "t = time_to_hit_line d ?off ?sg" "q = collision_point_on_line d ?off ?sg"
      by (simp_all add: predictive_sweep_def)
    have u: "length_squared n = 1" by (rule un [OF sel(1)])
    have mv: "vdot (vel d) n > epsilon"
      using sel(2) by (simp add: edge_qualifies_def moving_towards_def)
    let ?p = "if overlap_depth ?off ?sg q > - epsilon
              then vsub q (smul n (overlap_depth ?off ?sg q + epsilon)) else q"
    have inside: "overlap_depth ?off ?sg ?p \<le> - epsilon"
      by (simp add: overlap_depth_pushed [OF u])
    have "wall_contact s d dt ?p n"
      unfolding wall_contact_def Let_def Polygon shape.case
      using sel(1) u mv inside Some r sel(3,4)
      by (intro bexI [of _ ?sg]) simp_all
    with resolve_predictive_exact [of d ?off v_start v_end seg_vec seg_len_sq n q w]
    show ?thesis unfolding h by blast
  qed
qed

lemma wall_contact_unit: "wall_contact s d dt p n \<Longrightarrow> length_squared n = 1"
  by (cases "current_shape_data s") (auto simp: wall_contact_def Let_def)

subsection \<open>Speeds\<close>

lemma reflect_velocity_speed:
  assumes "reflect_velocity n d = Some d2"
  shows "vlength (vel d2) = vlength (vel d)"
proof (cases "length_squared (vel d) > epsilon")
  case True
  with assms obtain v where "reflect (vel d) n = Some v" "d2 = d\<lparr>vel := v\<rparr>"
    by (auto simp: reflect_velocity_def)
  with reflect_length_squared [of "vel d" n v] show ?thesis
    by (simp add: vlength_def)
next
  case False
  with assms show ?thesis by (simp add: reflect_velocity_def)
qed

lemma collide_at_speed:
  assumes "collide_at p n m d w = Some (d3, c, w')"
  shows "vlength (vel d3) = vlength (vel d)"
proof -
  from assms obtain d2 where d2: "reflect_velocity n (d\<lparr>pos := p\<rparr>) = Some d2"
      and rest: "mark_for_split m d2 w \<bind> (\<lambda>(d3, w'). Some (d3, True, w')) = Some (d3, c, w')"
    by (auto simp: bind_eq_Some_conv)
  from mark_for_split_spec [of m d2 w]
  obtain e w2 where m: "mark_for_split m d2 w = Some (e, w2)" "vel e = vel d2"
    by blast
  from rest m(1) have "d3 = e" by auto
  with m(2) reflect_velocity_speed [OF d2] show ?thesis by simp
qed

text \<open>The collision engine never changes the speed of a dot.\<close>

lemma handle_collisions_speed:
  assumes "handle_collisions s d dt w = Some (d1, c, w1)"
  shows "vlength (vel d1) = vlength (vel d)"
proof -
  from handle_collisions_cases_any [of s d dt w]
  consider "handle_collisions s d dt w = Some (d, False, w)"
    | p n m where "handle_collisions s d dt w = collide_at p n m d w"
    by blast
  then show ?thesis
  proof cases
    case 1
    with assms show ?thesis by simp
  next
    case 2
    with assms have "collide_at p n m d w = Some (d1, c, w1)" by simp
    from collide_at_speed [OF this] show ?thesis .
  qed
qed

lemma collide_or_move_speed:
  assumes "collide_or_move s dt d w = Some (d1, w1)"
  shows "vlength (vel d1) = vlength (vel d)"
proof -
  from assms obtain e c where h: "handle_collisions s d dt w = Some (e, c, w1)"
      and d1: "d1 = (if \<not> c then move dt e else e)"
    by (auto simp: collide_or_move_def bind_eq_Some_conv)
  from handle_collisions_speed [OF h] show ?thesis
    unfolding d1 by (simp add: move_def)
qed

lemma spawn_dot_speed:
  "\<exists>c. dots (fst (spawn_dot s w)) = dots s @ [c] \<and> vlength (vel c) = INITIAL_DOT_SPEED"
proof -
  have "0 \<le> INITIAL_DOT_SPEED" by (simp add: INITIAL_DOT_SPEED_def)
  from vlength_from_polar [OF this] show ?thesis
    by (simp add: spawn_dot_def Let_def case_prod_beta Dot_def)
qed

lemma split_speed:
  assumes "split d w = Some (parent, new_dots, w')"
  shows "\<forall>c \<in> set new_dots. vlength (vel c) = INITIAL_DOT_SPEED"
proof -
  obtain normal where "normal_for_split d (pos d) = Some normal"
    using split_Some_normal [OF assms] by blast
  from split_spec [OF this, of w] assms
  obtain c1 c2 where c: "new_dots = [c1, c2]"
      "vel c1 = from_polar INITIAL_DOT_SPEED (stored_normal_angle normal + child_offset w)"
      "vel c2 = from_polar INITIAL_DOT_SPEED
                  (stored_normal_angle normal
                    + child_offset (w\<lparr>draws_taken := draws_taken w + 4\<rparr>))"
    by auto
  have "0 \<le> INITIAL_DOT_SPEED" by (simp add: INITIAL_DOT_SPEED_def)
  then show ?thesis
    by (simp add: c vlength_from_polar)
qed

lemma update_dot_speed:
  assumes "update_dot s dt d (kept, to_add, to_remove, w) = Some (kept', to_add', to_remove', w')"
      and "vlength (vel d) = INITIAL_DOT_SPEED"
      and "\<forall>x \<in> set kept \<union> set to_add. vlength (vel x) = INITIAL_DOT_SPEED"
  shows "\<forall>x \<in> set kept' \<union> set to_add'. vlength (vel x) = INITIAL_DOT_SPEED"
proof -
  from update_dot_cases [OF assms(1)] obtain d1 w1
    where cm: "collide_or_move s dt d w = Some (d1, w1)"
      and cases: "(\<exists>parent c1 c2.
                  split d1 (snd (should_split d1 w1)) = Some (parent, [c1, c2], w')
                  \<and> kept' = kept \<and> to_add' = to_add @ [c1, c2])
         \<or> (kept' = kept @ [d1\<lparr>needs_split := False\<rparr>] \<and> to_add' = to_add)
         \<or> (kept' = kept @ [d1] \<and> to_add' = to_add)"
    by blast
  have sp1: "vlength (vel d1) = INITIAL_DOT_SPEED"
    using collide_or_move_speed [OF cm] assms(2) by simp
  from cases show ?thesis
  proof (elim disjE exE conjE)
    fix parent c1 c2
    assume sp: "split d1 (snd (should_split d1 w1)) = Some (parent, [c1, c2], w')"
      and e: "kept' = kept" "to_add' = to_add @ [c1, c2]"
    from split_speed [OF sp] assms(3) e show ?thesis by auto
  next
    assume "kept' = kept @ [d1\<lparr>needs_split := False\<rparr>]" "to_add' = to_add"
    with assms(3) sp1 show ?thesis by auto
  next
    assume "kept' = kept @ [d1]" "to_add' = to_add"
    with assms(3) sp1 show ?thesis by auto
  qed
qed

lemma update_loop_speed:
  assumes "update_loop s dt ds (kept, to_add, to_remove, w) = Some (kept', to_add', to_remove', w')"
      and "\<forall>x \<in> set ds \<union> set kept \<union> set to_add. vlength (vel x) = INITIAL_DOT_SPEED"
  shows "\<forall>x \<in> set kept' \<union> set to_add'. vlength (vel x) = INITIAL_DOT_SPEED"
  using assms
proof (induction ds arbitrary: kept to_add to_remove w)
  case Nil
  then show ?case by simp
next
  case (Cons d ds)
  from Cons.prems(1) obtain st where st: "update_dot s dt d (kept, to_add, to_remove, w) = Some st"
      and rest: "update_loop s dt ds st = Some (kept', to_add', to_remove', w')"
    by (auto split: option.splits)
  obtain k a r v where stv: "st = (k, a, r, v)" by (cases st)
  have "\<forall>x \<in> set k \<union> set a. vlength (vel x) = INITIAL_DOT_SPEED"
    using update_dot_speed [OF st [unfolded stv]] Cons.prems(2) by simp
  with Cons.prems(2)
  have "\<forall>x \<in> set ds \<union> set k \<union> set a. vlength (vel x) = INITIAL_DOT_SPEED" by auto
  from Cons.IH [OF rest [unfolded stv] this] show ?case .
qed

lemma spawn_on_interval_speed:
  assumes "\<forall>x \<in> set (dots s). vlength (vel x) = INITIAL_DOT_SPEED"
  shows "\<forall>x \<in> set (dots (fst (spawn_on_interval s t w))). vlength (vel x) = INITIAL_DOT_SPEED"
  using spawn_dot_speed [of s w] assms
  by (auto simp: spawn_on_interval_def Let_def case_prod_beta)

lemma update_speed:
  assumes "update s dt w = Some (s', w')"
      and "\<forall>x \<in> set (dots s). vlength (vel x) = INITIAL_DOT_SPEED"
  shows "\<forall>x \<in> set (dots s'). vlength (vel x) = INITIAL_DOT_SPEED"
proof (cases "paused s")
  case True
  with assms show ?thesis by (simp add: update_paused)
next
  case False
  let ?sw = "spawn_on_interval s (fst (get_ticks w)) (snd (get_ticks w))"
  from assms(1) False obtain kept to_add to_remove
    where loop: "update_loop (fst ?sw) dt (dots (fst ?sw)) ([], [], [], snd ?sw)
                   = Some (kept, to_add, to_remove, w')"
      and s': "s' = limit_check ((fst ?sw)\<lparr>dots := kept @ to_add\<rparr>)"
    by (auto simp: update_def Let_def case_prod_beta bind_eq_Some_conv)
  have "\<forall>x \<in> set (dots (fst ?sw)) \<union> set [] \<union> set []. vlength (vel x) = INITIAL_DOT_SPEED"
    using spawn_on_interval_speed [OF assms(2)] by simp
  from update_loop_speed [OF loop this] show ?thesis
    by (auto simp: s' limit_check_def)
qed

lemma handle_event_speed:
  assumes "\<forall>x \<in> set (dots s). vlength (vel x) = INITIAL_DOT_SPEED"
  shows "\<forall>x \<in> set (dots (fst (handle_event e (s, w)))). vlength (vel x) = INITIAL_DOT_SPEED"
proof -
  have sp: "\<forall>x \<in> set (dots (fst (handle_space s w))). vlength (vel x) = INITIAL_DOT_SPEED"
    using spawn_dot_speed [of s w] assms
    by (auto simp: handle_space_def Let_def case_prod_beta)
  show ?thesis
    using assms sp
    by (auto simp: handle_event_def Let_def reset_fields
        split: event.splits key.splits option.splits)
qed

text \<open>
  Every dot of every state that a run reaches moves at the initial speed, so the code
  reflects its velocity at every collision.
\<close>

lemma run_speed:
  assumes "run frames (fst (reset s0 w0)) w1 = Some (s, w)" and "d \<in> set (dots s)"
  shows "vlength (vel d) = INITIAL_DOT_SPEED" and "epsilon < length_squared (vel d)"
proof -
  let ?P = "\<lambda>s. \<forall>x \<in> set (dots s). vlength (vel x) = INITIAL_DOT_SPEED"
  have ev: "\<And>e s w. ?P s \<Longrightarrow> ?P (fst (handle_event e (s, w)))"
    by (rule handle_event_speed)
  have up: "\<And>s dt w s' w'. ?P s \<Longrightarrow> update s dt w = Some (s', w') \<Longrightarrow> ?P s'"
    by (rule update_speed)
  have init: "?P (fst (reset s0 w0))"
    by (simp add: reset_fields)
  have "?P s"
    by (rule run_invariant [where P = ?P, OF ev up init assms(1)])
  with assms(2) show sp: "vlength (vel d) = INITIAL_DOT_SPEED" by blast
  have "sqrt (length_squared (vel d)) = 200"
    using sp by (simp add: vlength_def INITIAL_DOT_SPEED_def)
  then have "length_squared (vel d) = 200\<^sup>2"
    by (metis abs_numeral real_sqrt_abs real_sqrt_eq_iff)
  then show "epsilon < length_squared (vel d)"
    by (simp add: epsilon_def)
qed

subsection \<open>The step\<close>

text \<open>
  The place and the normal of the collision of \<open>grazing_dot\<close> with the bottom edge of the
  square.
\<close>

lemma wall_contact_grazing_dot:
  "wall_contact square_sim grazing_dot (1 / 60) (398 / 7, 97499999 / 1000000) (0, 1)"
proof -
  have sw: "predictive_sweep grazing_dot (- 10) square_segments
              = Some (1 / 28, bottom_edge, (398 / 7, 203 / 2))"
    using sweep_grazing_dot by (simp add: COLLISION_BOUNDS_INWARD_OFFSET_def)
  have mem: "bottom_edge \<in> set square_segments"
    by (simp add: square_segments_def)
  have facts: "time_to_hit_line grazing_dot (- 10) bottom_edge = 1 / 28"
      "collision_point_on_line grazing_dot (- 10) bottom_edge = (398 / 7, 203 / 2)"
      "overlap_depth (- 10) bottom_edge (398 / 7, 203 / 2) = 4"
      "overlap_depth (- 10) bottom_edge (398 / 7, 97499999 / 1000000) = - epsilon"
      "vdot (vel grazing_dot) (0, 1) = 56"
    by (simp_all add: time_to_hit_line_def collision_point_on_line_def overlap_depth_def
        bottom_edge_def grazing_dot_def Dot_def vec_defs collision_cfg_defs)
  show ?thesis
    unfolding wall_contact_def Let_def
    apply (simp add: square_sim_def COLLISION_BOUNDS_INWARD_OFFSET_def)
    apply (rule bexI [OF _ mem])
    apply (simp add: sw facts)
    apply (simp add: bottom_edge_def length_squared_def epsilon_def vsub_def smul_def)
    done
qed

text \<open>
  C8. Take a well-formed shape and a dot whose squared speed exceeds \<open>epsilon\<close>, as it
  does for every dot of every state that a run reaches (lemma \<open>run_speed\<close>). The collision
  engine returns, and exactly one of two things happens.

  Either it returns true. Then there are a place \<open>p\<close> and an outward unit normal \<open>n\<close> of the
  wall, the ones \<open>wall_contact\<close> describes, such that the dot the engine leaves is at \<open>p\<close>
  (position corrected), has the velocity \<open>v - 2 (v \<cdot> n) n\<close> (velocity reflected) and is
  marked for split: if it was not marked before, it now stores the clock reading and the
  inward normal \<open>- n\<close>; if it was, its timer and its stored normal are unchanged. The
  controller keeps that dot as it is and does not move it.

  Or it returns false. Then the dot and the world are unchanged, and the controller
  advances the position by velocity times \<open>dt\<close>, leaving all else as it was.
\<close>

theorem collide_or_move_exclusive:
  assumes "unit_normals (current_shape_data s)" and "epsilon < length_squared (vel d)"
  shows "\<exists>d1 c w1. handle_collisions s d dt w = Some (d1, c, w1)
      \<and> (c \<longrightarrow> collide_or_move s dt d w = Some (d1, w1)
              \<and> (\<exists>p n. wall_contact s d dt p n
                     \<and> pos d1 = p
                     \<and> vel d1 = vsub (vel d) (smul n (2 * vdot (vel d) n))
                     \<and> needs_split d1 \<and> color d1 = color d
                     \<and> (needs_split d
                          \<longrightarrow> split_timer_start d1 = split_timer_start d
                              \<and> last_collision_normal d1 = last_collision_normal d
                              \<and> w1 = w)
                     \<and> (\<not> needs_split d
                          \<longrightarrow> split_timer_start d1 = clock w (clock_reads w)
                              \<and> last_collision_normal d1 = Some (vneg n)
                              \<and> w1 = w\<lparr>clock_reads := clock_reads w + 1\<rparr>)))
      \<and> (\<not> c \<longrightarrow> d1 = d \<and> w1 = w
              \<and> collide_or_move s dt d w
                  = Some (d\<lparr>pos := vadd (pos d) (smul (vel d) dt)\<rparr>, w))"
proof -
  from handle_collisions_contact [OF assms(1), of d dt w]
  consider "handle_collisions s d dt w = Some (d, False, w)"
    | p n where "wall_contact s d dt p n"
        "handle_collisions s d dt w = collide_at p n (vneg n) d w"
    by blast
  then show ?thesis
  proof cases
    case 1
    then have "collide_or_move s dt d w = Some (d\<lparr>pos := vadd (pos d) (smul (vel d) dt)\<rparr>, w)"
      by (simp add: collide_or_move_def move_def)
    with 1 show ?thesis
      by (intro exI [of _ d] exI [of _ False] exI [of _ w]) simp
  next
    case 2
    have u: "length_squared n = 1"
      by (rule wall_contact_unit [OF 2(1)])
    then have um: "length_squared (vneg n) = 1" by simp
    let ?v = "vsub (vel d) (smul n (2 * vdot (vel d) n))"
    let ?d1 = "if needs_split d then d\<lparr>pos := p, vel := ?v\<rparr>
               else d\<lparr>pos := p, vel := ?v, needs_split := True,
                      split_timer_start := clock w (clock_reads w),
                      last_collision_normal := Some (vneg n)\<rparr>"
    let ?w1 = "if needs_split d then w else w\<lparr>clock_reads := clock_reads w + 1\<rparr>"
    have h: "handle_collisions s d dt w = Some (?d1, True, ?w1)"
      unfolding 2(2) collide_at_unit [OF u um assms(2)] by simp
    then have cm: "collide_or_move s dt d w = Some (?d1, ?w1)"
      by (simp add: collide_or_move_def)
    have fields: "wall_contact s d dt p n \<and> pos ?d1 = p \<and> vel ?d1 = ?v
        \<and> needs_split ?d1 \<and> color ?d1 = color d
        \<and> (needs_split d \<longrightarrow> split_timer_start ?d1 = split_timer_start d
                              \<and> last_collision_normal ?d1 = last_collision_normal d \<and> ?w1 = w)
        \<and> (\<not> needs_split d \<longrightarrow> split_timer_start ?d1 = clock w (clock_reads w)
                              \<and> last_collision_normal ?d1 = Some (vneg n)
                              \<and> ?w1 = w\<lparr>clock_reads := clock_reads w + 1\<rparr>)"
      using 2(1) by simp
    show ?thesis
      using h cm fields
      by (intro exI [of _ ?d1] exI [of _ True] exI [of _ ?w1]) blast
  qed
qed

theorem collide_or_move_exclusive_witness:
  "unit_normals (current_shape_data square_sim)
   \<and> epsilon < length_squared (vel grazing_dot)
   \<and> epsilon < length_squared (vel inner_dot)
   \<and> handle_collisions square_sim grazing_dot (1 / 60) steady_world
       = Some (grazing_dot\<lparr>pos := (398 / 7, 97499999 / 1000000), vel := (192, - 56),
                            needs_split := True, split_timer_start := 100,
                            last_collision_normal := Some (0, - 1)\<rparr>,
               True, steady_world\<lparr>clock_reads := 1\<rparr>)
   \<and> collide_or_move square_sim (1 / 60) grazing_dot steady_world
       = Some (grazing_dot\<lparr>pos := (398 / 7, 97499999 / 1000000), vel := (192, - 56),
                            needs_split := True, split_timer_start := 100,
                            last_collision_normal := Some (0, - 1)\<rparr>,
               steady_world\<lparr>clock_reads := 1\<rparr>)
   \<and> wall_contact square_sim grazing_dot (1 / 60) (398 / 7, 97499999 / 1000000) (0, 1)
   \<and> vsub (vel grazing_dot) (smul (0, 1) (2 * vdot (vel grazing_dot) (0, 1))) = (192, - 56)
   \<and> handle_collisions square_sim inner_dot (1 / 60) steady_world
       = Some (inner_dot, False, steady_world)
   \<and> collide_or_move square_sim (1 / 60) inner_dot steady_world
       = Some (inner_dot\<lparr>pos := vadd (pos inner_dot) (smul (vel inner_dot) (1 / 60))\<rparr>,
               steady_world)
   \<and> vadd (pos inner_dot) (smul (vel inner_dot) (1 / 60)) = (266 / 5, 764 / 15)"
proof -
  have g: "epsilon < length_squared (vel grazing_dot)"
    by (simp add: grazing_dot_def Dot_def length_squared_def epsilon_def)
  have i: "epsilon < length_squared (vel inner_dot)"
    by (simp add: inner_dot_def Dot_def length_squared_def epsilon_def)
  have v: "vsub (vel grazing_dot) (smul (0, 1) (2 * vdot (vel grazing_dot) (0, 1))) = (192, - 56)"
    by (simp add: grazing_dot_def Dot_def vec_defs)
  have p: "vadd (pos inner_dot) (smul (vel inner_dot) (1 / 60)) = (266 / 5, 764 / 15)"
    by (simp add: inner_dot_def Dot_def vadd_def smul_def)
  show ?thesis
    using collide_or_move_exclusive [OF unit_normals_square g, of "1 / 60" steady_world]
      collide_or_move_exclusive [OF unit_normals_square i, of "1 / 60" steady_world]
      unit_normals_square g i v p wall_contact_grazing_dot
    by (auto simp: collide_grazing_dot collide_inner_dot)
qed

end
